theory Spec2Isabelle
  imports Main "HOL-Library.Sublist"
begin

section \<open>The filesystem\<close>

text \<open>
  The two scripts \<^verbatim>\<open>admin.py\<close> and \<^verbatim>\<open>web.py\<close> only talk to the filesystem, through
  \<^verbatim>\<open>Path.mkdir\<close> and \<^verbatim>\<open>open(..., "w")\<close>, and to standard output, through \<^verbatim>\<open>print\<close>.

  A path is the list of its components, read from the working directory of the process:
  \<open>[]\<close> is \<^verbatim>\<open>Path(".")\<close> and \<open>[''apps'', ''admin'']\<close> is \<^verbatim>\<open>Path("apps/admin")\<close>.
  The filesystem maps a path to what is there: nothing, a directory, or a regular file with
  its contents. It is an idealised POSIX filesystem: no permissions, no symbolic links, no
  limits on sizes or lengths, text written as it is given, and every regular file under one
  name only. Hard links, where two names share one file, are the subject of a section of
  their own below; without them that filesystem is this one (\<open>link_free_agree\<close>).

  The operator \<^verbatim>\<open>parent_path / name\<close> of pathlib is modelled as \<open>parent_path @ [name]\<close>.
  This is what pathlib does when \<open>name\<close> is a single path component; \<open>valid_name\<close> below
  says when that is so, and every name in the two structure literals is one.
\<close>

type_synonym path = "string list"

datatype entry = Dir | File string

type_synonym fs = "path \<Rightarrow> entry option"

datatype error = FileExistsError | FileNotFoundError | NotADirectoryError | IsADirectoryError

definition parent :: "path \<Rightarrow> path" where
  \<comment> \<open>\<^verbatim>\<open>Path.parent\<close>; the parent of \<^verbatim>\<open>Path(".")\<close> is itself.\<close>
  "parent p = butlast p"

definition is_dir :: "fs \<Rightarrow> path \<Rightarrow> bool" where
  \<comment> \<open>\<^verbatim>\<open>Path.is_dir()\<close>\<close>
  "is_dir fs p = (fs p = Some Dir)"

definition is_file :: "fs \<Rightarrow> path \<Rightarrow> bool" where
  "is_file fs p = (case fs p of Some (File c) \<Rightarrow> True | _ \<Rightarrow> False)"

text \<open>
  The system walks a path from the working directory, one component after the other. When
  the walk does not reach the parent of \<open>p\<close> because a component is missing, the call fails
  with \<^verbatim>\<open>ENOENT\<close> (\<^verbatim>\<open>FileNotFoundError\<close>); when it meets a regular file on the way, with
  \<^verbatim>\<open>ENOTDIR\<close> (\<^verbatim>\<open>NotADirectoryError\<close>). \<open>lookup_error fs q\<close> is the error for a parent \<open>q\<close>
  that is not there.
\<close>

definition below_file :: "fs \<Rightarrow> path \<Rightarrow> bool" where
  "below_file fs q = list_ex (is_file fs) (prefixes q)"

definition lookup_error :: "fs \<Rightarrow> path \<Rightarrow> error" where
  "lookup_error fs q = (if below_file fs q then NotADirectoryError else FileNotFoundError)"

text \<open>
  \<^verbatim>\<open>os.mkdir(p)\<close>: the parent must be a directory and nothing may be at \<open>p\<close> yet
  (\<^verbatim>\<open>EEXIST\<close>, \<^verbatim>\<open>FileExistsError\<close>); the working directory itself always exists.
\<close>

definition os_mkdir :: "path \<Rightarrow> fs \<Rightarrow> error + fs" where
  "os_mkdir p fs =
     (if p = [] then Inl FileExistsError
      else case fs (parent p) of
             None \<Rightarrow> Inl (lookup_error fs (parent p))
           | Some (File c) \<Rightarrow> Inl NotADirectoryError
           | Some Dir \<Rightarrow> (case fs p of
                           None \<Rightarrow> Inr (fs(p \<mapsto> Dir))
                         | Some e \<Rightarrow> Inl FileExistsError))"

text \<open>
  \<^verbatim>\<open>Path.mkdir(parents, exist_ok)\<close>, as pathlib writes it:
  \<^verbatim>\<open>
    try:
        os.mkdir(self, mode)
    except FileNotFoundError:
        if not parents or self.parent == self:
            raise
        self.parent.mkdir(parents=True, exist_ok=True)
        self.mkdir(mode, parents=False, exist_ok=exist_ok)
    except OSError:
        if not exist_ok or not self.is_dir():
            raise
  \<close>
\<close>

function path_mkdir :: "bool \<Rightarrow> bool \<Rightarrow> path \<Rightarrow> fs \<Rightarrow> error + fs" where
  "path_mkdir parents exist_ok p fs =
     (case os_mkdir p fs of
        Inr fs' \<Rightarrow> Inr fs'
      | Inl e \<Rightarrow>
          if e = FileNotFoundError then
            (if \<not> parents \<or> parent p = p then Inl e
             else (case path_mkdir True True (parent p) fs of
                     Inl e' \<Rightarrow> Inl e'
                   | Inr fs' \<Rightarrow> path_mkdir False exist_ok p fs'))
          else if \<not> exist_ok \<or> \<not> is_dir fs p then Inl e
          else Inr fs)"
  by pat_completeness auto
termination
  by (relation "measure (\<lambda>(parents, exist_ok, p, fs). 2 * length p + (if parents then 1 else 0))")
     (auto simp: parent_def butlast_conv_take)

text \<open>
  \<^verbatim>\<open>open(p, "w")\<close> creates the file or truncates it; it raises on a directory
  (\<^verbatim>\<open>IsADirectoryError\<close>) and, as \<^verbatim>\<open>os.mkdir\<close> does, when the parent is not a directory. \<^verbatim>\<open>f.write(content)\<close> appends to what the open file holds, and
  leaving the \<^verbatim>\<open>with\<close> block closes it.
\<close>

definition open_w :: "path \<Rightarrow> fs \<Rightarrow> error + fs" where
  "open_w p fs =
     (if p = [] then Inl IsADirectoryError
      else case fs (parent p) of
             None \<Rightarrow> Inl (lookup_error fs (parent p))
           | Some (File c) \<Rightarrow> Inl NotADirectoryError
           | Some Dir \<Rightarrow> (case fs p of
                           Some Dir \<Rightarrow> Inl IsADirectoryError
                         | _ \<Rightarrow> Inr (fs(p \<mapsto> File []))))"

definition f_write :: "path \<Rightarrow> string \<Rightarrow> fs \<Rightarrow> fs" where
  "f_write p content fs =
     (case fs p of Some (File c) \<Rightarrow> fs(p \<mapsto> File (c @ content)) | _ \<Rightarrow> fs)"

section \<open>The state of a run\<close>

text \<open>
  A run changes the filesystem and standard output. The state also keeps the trace of the
  statements with an effect that the run has reached, in the order it reached them; a
  statement is entered in the trace before it is carried out, so a statement that raises is
  the last one of the trace. A function of the scripts returns \<open>None\<close> with the new state,
  or \<open>Some e\<close>, the exception it raised, with the state at that moment.
\<close>

datatype event =
    MkdirParents path       \<comment> \<open>\<^verbatim>\<open>base_dir.mkdir(parents=True, exist_ok=True)\<close>\<close>
  | Mkdir path              \<comment> \<open>\<^verbatim>\<open>current_path.mkdir(exist_ok=True)\<close>\<close>
  | WriteFile path string   \<comment> \<open>\<^verbatim>\<open>with open(current_path, "w") as f: f.write(content)\<close>\<close>
  | Print string            \<comment> \<open>\<^verbatim>\<open>print(...)\<close>\<close>

record world =
  files :: fs
  trace :: "event list"
  stdout :: "string list"

definition log_event :: "event \<Rightarrow> world \<Rightarrow> world" where
  "log_event ev w = w\<lparr>trace := trace w @ [ev]\<rparr>"

definition mkdir_parents_exist_ok :: "path \<Rightarrow> world \<Rightarrow> error option \<times> world" where
  "mkdir_parents_exist_ok p w =
     (case path_mkdir True True p (files w) of
        Inl e \<Rightarrow> (Some e, log_event (MkdirParents p) w)
      | Inr fs' \<Rightarrow> (None, (log_event (MkdirParents p) w)\<lparr>files := fs'\<rparr>))"

definition mkdir_exist_ok :: "path \<Rightarrow> world \<Rightarrow> error option \<times> world" where
  "mkdir_exist_ok p w =
     (case path_mkdir False True p (files w) of
        Inl e \<Rightarrow> (Some e, log_event (Mkdir p) w)
      | Inr fs' \<Rightarrow> (None, (log_event (Mkdir p) w)\<lparr>files := fs'\<rparr>))"

definition write_file :: "path \<Rightarrow> string \<Rightarrow> world \<Rightarrow> error option \<times> world" where
  "write_file p content w =
     (case open_w p (files w) of
        Inl e \<Rightarrow> (Some e, log_event (WriteFile p content) w)
      | Inr fs' \<Rightarrow> (None, (log_event (WriteFile p content) w)\<lparr>files := f_write p content fs'\<rparr>))"

definition print :: "string \<Rightarrow> world \<Rightarrow> error option \<times> world" where
  "print line w = (None, (log_event (Print line) w)\<lparr>stdout := stdout w @ [line]\<rparr>)"

definition path_str :: "path \<Rightarrow> string" where
  \<comment> \<open>\<^verbatim>\<open>str(path)\<close>\<close>
  "path_str p =
     (if p = [] then ''.'' else foldr (\<lambda>a b. if b = [] then a else a @ ''/'' @ b) p [])"

section \<open>The scripts\<close>

text \<open>
  The structure literal is a Python \<^verbatim>\<open>dict\<close> whose values are strings or dicts again. A dict
  keeps its items in insertion order, and \<^verbatim>\<open>items()\<close> yields them so: it is a list of pairs.
  That a dict holds a key once is \<open>distinct_keys\<close> below.
\<close>

datatype node = Str string | Dict "(string \<times> node) list"

type_synonym tree = "(string \<times> node) list"

subsection \<open>admin.py\<close>

text \<open>
  The \<^verbatim>\<open>for\<close> loop over \<^verbatim>\<open>items.items()\<close> is the recursion over the list; an exception leaves
  the loop and the function with the state reached.
\<close>

function create_files_and_dirs :: "path \<Rightarrow> tree \<Rightarrow> world \<Rightarrow> error option \<times> world" where
  "create_files_and_dirs parent_path [] w = (None, w)"
| "create_files_and_dirs parent_path ((name, Dict d) # items) w =
     (let current_path = parent_path @ [name] in
      case mkdir_exist_ok current_path w of
        (Some e, w1) \<Rightarrow> (Some e, w1)
      | (None, w1) \<Rightarrow>
          (case create_files_and_dirs current_path d w1 of
             (Some e, w2) \<Rightarrow> (Some e, w2)
           | (None, w2) \<Rightarrow> create_files_and_dirs parent_path items w2))"
| "create_files_and_dirs parent_path ((name, Str s) # items) w =
     (let current_path = parent_path @ [name] in
      case write_file current_path s w of
        (Some e, w1) \<Rightarrow> (Some e, w1)
      | (None, w1) \<Rightarrow> create_files_and_dirs parent_path items w1)"
  by pat_completeness auto
termination
  by (relation "measure (\<lambda>(p, items, w). size (Dict items))") auto

definition completion_message :: "path \<Rightarrow> string" where
  "completion_message base_dir =
     ''Directory structure created successfully at '' @ path_str base_dir"

text \<open>
  \<^verbatim>\<open>create_structure()\<close> of admin.py, with its two local constants \<^verbatim>\<open>base_dir\<close> and
  \<^verbatim>\<open>structure\<close> as parameters; \<open>admin_create_structure\<close> is the function itself.
\<close>

definition create_structure :: "path \<Rightarrow> tree \<Rightarrow> world \<Rightarrow> error option \<times> world" where
  "create_structure base_dir structure w =
     (case mkdir_parents_exist_ok base_dir w of
        (Some e, w1) \<Rightarrow> (Some e, w1)
      | (None, w1) \<Rightarrow>
          (case create_files_and_dirs base_dir structure w1 of
             (Some e, w2) \<Rightarrow> (Some e, w2)
           | (None, w2) \<Rightarrow> print (completion_message base_dir) w2))"

definition admin_base_dir :: path where
  "admin_base_dir = [''apps'', ''admin'']"

definition admin_structure :: tree where
  "admin_structure =
     [
      (''.env.example'', Str ''''),
      (''.env.local'', Str ''''),
      (''.eslintrc.js'', Str ''''),
      (''.gitignore'', Str ''''),
      (''next.config.js'', Str ''''),
      (''package.json'', Str ''''),
      (''postcss.config.js'', Str ''''),
      (''tailwind.config.js'', Str ''''),
      (''tsconfig.json'', Str ''''),
      (''middleware.ts'', Str ''''),
      (''public'', Dict [
        (''favicon.ico'', Str ''''),
        (''admin-logo.svg'', Str ''''),
        (''images'', Dict [
          (''avatar-placeholder.png'', Str ''''),
          (''admin-bg.jpg'', Str '''')
         ])
       ]),
      (''src'', Dict [
        (''app'', Dict [
          (''globals.css'', Str ''''),
          (''layout.tsx'', Str ''''),
          (''loading.tsx'', Str ''''),
          (''not-found.tsx'', Str ''''),
          (''page.tsx'', Str ''''),
          (''auth'', Dict [
            (''login'', Dict [(''page.tsx'', Str '''')]),
            (''layout.tsx'', Str ''''),
            (''forgot-password'', Dict [(''page.tsx'', Str '''')])
           ]),
          (''dashboard'', Dict [
            (''page.tsx'', Str ''''),
            (''loading.tsx'', Str ''''),
            (''error.tsx'', Str '''')
           ]),
          (''content'', Dict [
            (''page.tsx'', Str ''''),
            (''layout.tsx'', Str ''''),
            (''posts'', Dict [
              (''page.tsx'', Str ''''),
              (''new'', Dict [(''page.tsx'', Str '''')]),
              (''[id]'', Dict [(''page.tsx'', Str ''''), (''edit'', Dict [(''page.tsx'', Str '''')])])
             ]),
            (''pages'', Dict [
              (''page.tsx'', Str ''''),
              (''new'', Dict [(''page.tsx'', Str '''')]),
              (''[id]'', Dict [(''page.tsx'', Str ''''), (''edit'', Dict [(''page.tsx'', Str '''')])])
             ]),
            (''media'', Dict [
              (''page.tsx'', Str ''''),
              (''upload'', Dict [(''page.tsx'', Str '''')])
             ]),
            (''categories'', Dict [
              (''page.tsx'', Str ''''),
              (''new'', Dict [(''page.tsx'', Str '''')])
             ])
           ]),
          (''plugins'', Dict [
            (''page.tsx'', Str ''''),
            (''layout.tsx'', Str ''''),
            (''marketplace'', Dict [(''page.tsx'', Str '''')]),
            (''installed'', Dict [(''page.tsx'', Str '''')]),
            (''[slug]'', Dict [(''page.tsx'', Str ''''), (''settings'', Dict [(''page.tsx'', Str '''')])])
           ]),
          (''users'', Dict [
            (''page.tsx'', Str ''''),
            (''layout.tsx'', Str ''''),
            (''new'', Dict [(''page.tsx'', Str '''')]),
            (''roles'', Dict [(''page.tsx'', Str ''''), (''[id]'', Dict [(''page.tsx'', Str '''')])]),
            (''[id]'', Dict [(''page.tsx'', Str ''''), (''edit'', Dict [(''page.tsx'', Str '''')])])
           ]),
          (''settings'', Dict [
            (''page.tsx'', Str ''''),
            (''layout.tsx'', Str ''''),
            (''general'', Dict [(''page.tsx'', Str '''')]),
            (''security'', Dict [(''page.tsx'', Str '''')]),
            (''email'', Dict [(''page.tsx'', Str '''')]),
            (''performance'', Dict [(''page.tsx'', Str '''')])
           ]),
          (''api'', Dict [
            (''auth'', Dict [
              (''login'', Dict [(''route.ts'', Str '''')]),
              (''me'', Dict [(''route.ts'', Str '''')])
             ]),
            (''content'', Dict [
              (''posts'', Dict [(''route.ts'', Str ''''), (''[id]'', Dict [(''route.ts'', Str '''')])]),
              (''pages'', Dict [(''route.ts'', Str ''''), (''[id]'', Dict [(''route.ts'', Str '''')])]),
              (''media'', Dict [(''route.ts'', Str ''''), (''upload'', Dict [(''route.ts'', Str '''')]), (''[id]'', Dict [(''route.ts'', Str '''')])])
             ]),
            (''plugins'', Dict [
              (''route.ts'', Str ''''),
              (''install'', Dict [(''route.ts'', Str '''')]),
              (''[slug]'', Dict [
                (''route.ts'', Str ''''),
                (''activate'', Dict [(''route.ts'', Str '''')]),
                (''deactivate'', Dict [(''route.ts'', Str '''')]),
                (''configure'', Dict [(''route.ts'', Str '''')]),
                (''uninstall'', Dict [(''route.ts'', Str '''')])
               ])
             ]),
            (''users'', Dict [
              (''route.ts'', Str ''''),
              (''[id]'', Dict [
                (''route.ts'', Str ''''),
                (''roles'', Dict [(''route.ts'', Str '''')]),
                (''permissions'', Dict [(''route.ts'', Str '''')])
               ])
             ]),
            (''settings'', Dict [
              (''route.ts'', Str ''''),
              (''general'', Dict [(''route.ts'', Str '''')]),
              (''security'', Dict [(''route.ts'', Str '''')]),
              (''email'', Dict [(''route.ts'', Str '''')])
             ])
           ])
         ]),
        (''components'', Dict [
          (''layout'', Dict [
            (''admin-header.tsx'', Str ''''),
            (''admin-sidebar.tsx'', Str ''''),
            (''breadcrumbs.tsx'', Str ''''),
            (''mobile-nav.tsx'', Str ''''),
            (''user-nav.tsx'', Str '''')
           ]),
          (''dashboard'', Dict [
            (''stats-cards.tsx'', Str ''''),
            (''recent-activity.tsx'', Str ''''),
            (''plugin-status.tsx'', Str ''''),
            (''system-health.tsx'', Str ''''),
            (''quick-actions.tsx'', Str '''')
           ]),
          (''content'', Dict [
            (''content-table.tsx'', Str ''''),
            (''content-form.tsx'', Str ''''),
            (''rich-text-editor.tsx'', Str ''''),
            (''media-library.tsx'', Str ''''),
            (''media-upload.tsx'', Str ''''),
            (''content-filters.tsx'', Str '''')
           ]),
          (''plugins'', Dict [
            (''plugin-card.tsx'', Str ''''),
            (''plugin-table.tsx'', Str ''''),
            (''plugin-install-dialog.tsx'', Str ''''),
            (''plugin-settings-form.tsx'', Str ''''),
            (''plugin-marketplace.tsx'', Str '''')
           ]),
          (''users'', Dict [
            (''user-table.tsx'', Str ''''),
            (''user-form.tsx'', Str ''''),
            (''role-form.tsx'', Str ''''),
            (''permissions-form.tsx'', Str ''''),
            (''user-filters.tsx'', Str '''')
           ]),
          (''settings'', Dict [
            (''settings-form.tsx'', Str ''''),
            (''security-settings.tsx'', Str ''''),
            (''email-settings.tsx'', Str ''''),
            (''performance-settings.tsx'', Str '''')
           ]),
          (''common'', Dict [
            (''data-table.tsx'', Str ''''),
            (''loading-spinner.tsx'', Str ''''),
            (''empty-state.tsx'', Str ''''),
            (''error-boundary.tsx'', Str ''''),
            (''confirmation-dialog.tsx'', Str ''''),
            (''search-input.tsx'', Str '''')
           ])
         ]),
        (''hooks'', Dict [
          (''use-auth.ts'', Str ''''),
          (''use-plugins.ts'', Str ''''),
          (''use-content.ts'', Str ''''),
          (''use-users.ts'', Str ''''),
          (''use-settings.ts'', Str ''''),
          (''use-toast.ts'', Str ''''),
          (''use-local-storage.ts'', Str '''')
         ]),
        (''lib'', Dict [
          (''auth.ts'', Str ''''),
          (''api.ts'', Str ''''),
          (''database.ts'', Str ''''),
          (''plugins.ts'', Str ''''),
          (''utils.ts'', Str ''''),
          (''validations.ts'', Str ''''),
          (''constants.ts'', Str ''''),
          (''middleware.ts'', Str '''')
         ]),
        (''providers'', Dict [
          (''auth-provider.tsx'', Str ''''),
          (''plugin-provider.tsx'', Str ''''),
          (''toast-provider.tsx'', Str ''''),
          (''query-provider.tsx'', Str '''')
         ]),
        (''styles'', Dict [
          (''globals.css'', Str ''''),
          (''components.css'', Str ''''),
          (''admin.css'', Str '''')
         ]),
        (''types'', Dict [
          (''auth.ts'', Str ''''),
          (''content.ts'', Str ''''),
          (''plugins.ts'', Str ''''),
          (''users.ts'', Str ''''),
          (''settings.ts'', Str ''''),
          (''api.ts'', Str '''')
         ])
       ])
     ]"

definition admin_create_structure :: "world \<Rightarrow> error option \<times> world" where
  "admin_create_structure w = create_structure admin_base_dir admin_structure w"

subsection \<open>web.py\<close>

function web_create_files_and_dirs :: "path \<Rightarrow> tree \<Rightarrow> world \<Rightarrow> error option \<times> world" where
  "web_create_files_and_dirs parent_path [] w = (None, w)"
| "web_create_files_and_dirs parent_path ((name, Dict d) # items) w =
     (let current_path = parent_path @ [name] in
      case mkdir_exist_ok current_path w of
        (Some e, w1) \<Rightarrow> (Some e, w1)
      | (None, w1) \<Rightarrow>
          (case web_create_files_and_dirs current_path d w1 of
             (Some e, w2) \<Rightarrow> (Some e, w2)
           | (None, w2) \<Rightarrow> web_create_files_and_dirs parent_path items w2))"
| "web_create_files_and_dirs parent_path ((name, Str s) # items) w =
     (let current_path = parent_path @ [name] in
      case write_file current_path s w of
        (Some e, w1) \<Rightarrow> (Some e, w1)
      | (None, w1) \<Rightarrow> web_create_files_and_dirs parent_path items w1)"
  by pat_completeness auto
termination
  by (relation "measure (\<lambda>(p, items, w). size (Dict items))") auto

definition web_create_structure_at :: "path \<Rightarrow> tree \<Rightarrow> world \<Rightarrow> error option \<times> world" where
  \<comment> \<open>\<^verbatim>\<open>create_structure()\<close> of web.py, with \<^verbatim>\<open>base_dir\<close> and \<^verbatim>\<open>structure\<close> as parameters\<close>
  "web_create_structure_at base_dir structure w =
     (case mkdir_parents_exist_ok base_dir w of
        (Some e, w1) \<Rightarrow> (Some e, w1)
      | (None, w1) \<Rightarrow>
          (case web_create_files_and_dirs base_dir structure w1 of
             (Some e, w2) \<Rightarrow> (Some e, w2)
           | (None, w2) \<Rightarrow> print (completion_message base_dir) w2))"

definition web_base_dir :: path where
  "web_base_dir = [''apps'', ''web'']"

definition web_structure :: tree where
  "web_structure =
     [
      (''.env.example'', Str ''''),
      (''.env.local'', Str ''''),
      (''.eslintrc.js'', Str ''''),
      (''.gitignore'', Str ''''),
      (''next.config.js'', Str ''''),
      (''package.json'', Str ''''),
      (''postcss.config.js'', Str ''''),
      (''tailwind.config.js'', Str ''''),
      (''tsconfig.json'', Str ''''),
      (''middleware.ts'', Str ''''),
      (''public'', Dict [
        (''favicon.ico'', Str ''''),
        (''logo.svg'', Str ''''),
        (''og-image.png'', Str ''''),
        (''images'', Dict [
          (''hero-bg.jpg'', Str ''''),
          (''placeholder.png'', Str '''')
         ])
       ]),
      (''src'', Dict [
        (''app'', Dict [
          (''globals.css'', Str ''''),
          (''layout.tsx'', Str ''''),
          (''loading.tsx'', Str ''''),
          (''not-found.tsx'', Str ''''),
          (''page.tsx'', Str ''''),
          (''about'', Dict [(''page.tsx'', Str '''')]),
          (''contact'', Dict [(''page.tsx'', Str '''')]),
          (''blog'', Dict [
            (''page.tsx'', Str ''''),
            (''[slug]'', Dict [(''page.tsx'', Str '''')]),
            (''category'', Dict [(''[category]'', Dict [(''page.tsx'', Str '''')])])
           ]),
          (''auth'', Dict [
            (''login'', Dict [(''page.tsx'', Str '''')]),
            (''register'', Dict [(''page.tsx'', Str '''')]),
            (''forgot-password'', Dict [(''page.tsx'', Str '''')])
           ]),
          (''account'', Dict [
            (''page.tsx'', Str ''''),
            (''profile'', Dict [(''page.tsx'', Str '''')]),
            (''settings'', Dict [(''page.tsx'', Str '''')])
           ]),
          (''api'', Dict [
            (''auth'', Dict [
              (''login'', Dict [(''route.ts'', Str '''')]),
              (''register'', Dict [(''route.ts'', Str '''')]),
              (''me'', Dict [(''route.ts'', Str '''')])
             ]),
            (''content'', Dict [
              (''posts'', Dict [(''route.ts'', Str ''''), (''[slug]'', Dict [(''route.ts'', Str '''')])]),
              (''pages'', Dict [(''route.ts'', Str ''''), (''[slug]'', Dict [(''route.ts'', Str '''')])])
             ]),
            (''contact'', Dict [(''route.ts'', Str '''')]),
            (''plugins'', Dict [(''[plugin]'', Dict [(''[...path]'', Dict [(''route.ts'', Str '''')])])])
           ])
         ]),
        (''components'', Dict [
          (''layout'', Dict [
            (''header.tsx'', Str ''''),
            (''footer.tsx'', Str ''''),
            (''navigation.tsx'', Str ''''),
            (''mobile-nav.tsx'', Str '''')
           ]),
          (''sections'', Dict [
            (''hero.tsx'', Str ''''),
            (''features.tsx'', Str ''''),
            (''blog-preview.tsx'', Str '''')
           ]),
          (''blog'', Dict [
            (''post-card.tsx'', Str ''''),
            (''post-content.tsx'', Str ''''),
            (''category-filter.tsx'', Str '''')
           ]),
          (''auth'', Dict [
            (''login-form.tsx'', Str ''''),
            (''register-form.tsx'', Str ''''),
            (''auth-guard.tsx'', Str '''')
           ]),
          (''forms'', Dict [
            (''contact-form.tsx'', Str '''')
           ]),
          (''plugins'', Dict [
            (''plugin-renderer.tsx'', Str '''')
           ]),
          (''common'', Dict [
            (''seo.tsx'', Str ''''),
            (''breadcrumbs.tsx'', Str ''''),
            (''pagination.tsx'', Str ''''),
            (''loading-spinner.tsx'', Str '''')
           ])
         ]),
        (''hooks'', Dict [
          (''use-auth.ts'', Str ''''),
          (''use-posts.ts'', Str ''''),
          (''use-plugins.ts'', Str ''''),
          (''use-local-storage.ts'', Str '''')
         ]),
        (''lib'', Dict [
          (''auth.ts'', Str ''''),
          (''api.ts'', Str ''''),
          (''utils.ts'', Str ''''),
          (''validations.ts'', Str ''''),
          (''constants.ts'', Str ''''),
          (''seo.ts'', Str ''''),
          (''plugins.ts'', Str '''')
         ]),
        (''providers'', Dict [
          (''auth-provider.tsx'', Str ''''),
          (''plugin-provider.tsx'', Str ''''),
          (''toast-provider.tsx'', Str '''')
         ]),
        (''styles'', Dict [
          (''globals.css'', Str ''''),
          (''components.css'', Str '''')
         ]),
        (''types'', Dict [
          (''auth.ts'', Str ''''),
          (''content.ts'', Str ''''),
          (''plugins.ts'', Str ''''),
          (''api.ts'', Str '''')
         ])
       ])
     ]"

definition web_create_structure :: "world \<Rightarrow> error option \<times> world" where
  "web_create_structure w = web_create_structure_at web_base_dir web_structure w"

section \<open>Vocabulary of the specification\<close>

subsection \<open>Trees that are directory listings\<close>

text \<open>
  A Python dict holds each key once. A name is a single path component when it is not empty,
  not \<^verbatim>\<open>.\<close> or \<^verbatim>\<open>..\<close>, and has no slash and no NUL in it.
\<close>

fun distinct_keys :: "tree \<Rightarrow> bool" where
  "distinct_keys [] = True"
| "distinct_keys ((name, Dict d) # items) =
     (name \<notin> fst ` set items \<and> distinct_keys d \<and> distinct_keys items)"
| "distinct_keys ((name, Str s) # items) =
     (name \<notin> fst ` set items \<and> distinct_keys items)"

definition valid_name :: "string \<Rightarrow> bool" where
  "valid_name name \<longleftrightarrow>
     name \<noteq> [] \<and> name \<noteq> ''.'' \<and> name \<noteq> ''..'' \<and>
     CHR ''/'' \<notin> set name \<and> CHR 0x00 \<notin> set name"

fun valid_names :: "tree \<Rightarrow> bool" where
  "valid_names [] = True"
| "valid_names ((name, Dict d) # items) =
     (valid_name name \<and> valid_names d \<and> valid_names items)"
| "valid_names ((name, Str s) # items) = (valid_name name \<and> valid_names items)"

text \<open>The paths that the keys of a tree name under \<open>P\<close>, recursively.\<close>

fun tree_paths :: "path \<Rightarrow> tree \<Rightarrow> path list" where
  "tree_paths P [] = []"
| "tree_paths P ((name, Dict d) # items) =
     (P @ [name]) # tree_paths (P @ [name]) d @ tree_paths P items"
| "tree_paths P ((name, Str s) # items) = (P @ [name]) # tree_paths P items"

text \<open>The paths of the keys whose value is a mapping, in the order of the walk.\<close>

fun dir_paths :: "path \<Rightarrow> tree \<Rightarrow> path list" where
  "dir_paths P [] = []"
| "dir_paths P ((name, Dict d) # items) =
     (P @ [name]) # dir_paths (P @ [name]) d @ dir_paths P items"
| "dir_paths P ((name, Str s) # items) = dir_paths P items"

text \<open>
  The tree is materialized under \<open>P\<close>: every key with a mapping is a directory there, every key
  with a string is a file with that string as its contents.
\<close>

fun materialized :: "fs \<Rightarrow> path \<Rightarrow> tree \<Rightarrow> bool" where
  "materialized fs P [] = True"
| "materialized fs P ((name, Dict d) # items) =
     (fs (P @ [name]) = Some Dir \<and> materialized fs (P @ [name]) d \<and> materialized fs P items)"
| "materialized fs P ((name, Str s) # items) =
     (fs (P @ [name]) = Some (File s) \<and> materialized fs P items)"

text \<open>
  The two ways an entry of the tree can meet something of the other kind: a regular file
  where the tree has a directory, a directory where the tree has a file.
\<close>

fun dir_collision :: "fs \<Rightarrow> path \<Rightarrow> tree \<Rightarrow> bool" where
  "dir_collision fs P [] = False"
| "dir_collision fs P ((name, Dict d) # items) =
     (is_file fs (P @ [name]) \<or> dir_collision fs (P @ [name]) d \<or> dir_collision fs P items)"
| "dir_collision fs P ((name, Str s) # items) = dir_collision fs P items"

fun file_collision :: "fs \<Rightarrow> path \<Rightarrow> tree \<Rightarrow> bool" where
  "file_collision fs P [] = False"
| "file_collision fs P ((name, Dict d) # items) =
     (file_collision fs (P @ [name]) d \<or> file_collision fs P items)"
| "file_collision fs P ((name, Str s) # items) =
     (is_dir fs (P @ [name]) \<or> file_collision fs P items)"

definition no_collision :: "fs \<Rightarrow> path \<Rightarrow> tree \<Rightarrow> bool" where
  "no_collision fs P T \<longleftrightarrow> \<not> dir_collision fs P T \<and> \<not> file_collision fs P T"

subsection \<open>The order of the traversal\<close>

text \<open>
  The statements that a walk of the tree reaches when nothing raises: the entries of a mapping
  in insertion order, and the whole subtree of a directory entry before its next sibling.
\<close>

fun visit_order :: "path \<Rightarrow> tree \<Rightarrow> event list" where
  "visit_order parent_path [] = []"
| "visit_order parent_path ((name, Dict d) # items) =
     Mkdir (parent_path @ [name]) #
     visit_order (parent_path @ [name]) d @ visit_order parent_path items"
| "visit_order parent_path ((name, Str s) # items) =
     WriteFile (parent_path @ [name]) s # visit_order parent_path items"

text \<open>Carrying out a list of statements one after the other, up to the first that raises.\<close>

fun perform :: "event \<Rightarrow> world \<Rightarrow> error option \<times> world" where
  "perform (Mkdir p) w = mkdir_exist_ok p w"
| "perform (MkdirParents p) w = mkdir_parents_exist_ok p w"
| "perform (WriteFile p s) w = write_file p s w"
| "perform (Print s) w = print s w"

fun run :: "event list \<Rightarrow> world \<Rightarrow> error option \<times> world" where
  "run [] w = (None, w)"
| "run (ev # evs) w =
     (case perform ev w of (Some e, w') \<Rightarrow> (Some e, w') | (None, w') \<Rightarrow> run evs w')"

text \<open>The same on the filesystem alone.\<close>

fun fs_step :: "event \<Rightarrow> fs \<Rightarrow> error + fs" where
  "fs_step (Mkdir p) fs = path_mkdir False True p fs"
| "fs_step (MkdirParents p) fs = path_mkdir True True p fs"
| "fs_step (WriteFile p s) fs =
     (case open_w p fs of Inl e \<Rightarrow> Inl e | Inr fs' \<Rightarrow> Inr (f_write p s fs'))"
| "fs_step (Print s) fs = Inr fs"

fun exec :: "event list \<Rightarrow> fs \<Rightarrow> error option \<times> fs" where
  "exec [] fs = (None, fs)"
| "exec (ev # evs) fs =
     (case fs_step ev fs of Inl e \<Rightarrow> (Some e, fs) | Inr fs' \<Rightarrow> exec evs fs')"

fun attempted :: "event list \<Rightarrow> fs \<Rightarrow> nat" where
  "attempted [] fs = 0"
| "attempted (ev # evs) fs =
     (case fs_step ev fs of Inl e \<Rightarrow> 1 | Inr fs' \<Rightarrow> Suc (attempted evs fs'))"

fun touched :: "event \<Rightarrow> path set" where
  "touched (Mkdir p) = {p}"
| "touched (MkdirParents p) = {q. prefix q p}"
| "touched (WriteFile p s) = {p}"
| "touched (Print s) = {}"

fun ev_path :: "event \<Rightarrow> path" where
  "ev_path (Mkdir p) = p"
| "ev_path (MkdirParents p) = p"
| "ev_path (WriteFile p s) = p"
| "ev_path (Print s) = []"

fun entry_event :: "event \<Rightarrow> bool" where
  "entry_event (Mkdir p) = True"
| "entry_event (WriteFile p s) = True"
| "entry_event ev = False"

text \<open>What a statement is there to bring about.\<close>

fun achieved :: "fs \<Rightarrow> event \<Rightarrow> bool" where
  "achieved fs (Mkdir p) = (fs p = Some Dir)"
| "achieved fs (MkdirParents p) = (fs p = Some Dir)"
| "achieved fs (WriteFile p s) = (fs p = Some (File s))"
| "achieved fs (Print s) = True"

text \<open>
  A statement of the walk carried out once more: the \<^verbatim>\<open>mkdir\<close> of a directory raises nothing
  and changes nothing, the \<^verbatim>\<open>open\<close> and \<^verbatim>\<open>write\<close> of a file raise nothing and the file holds
  the given content.
\<close>

fun redone :: "fs \<Rightarrow> event \<Rightarrow> bool" where
  "redone fs (Mkdir p) = (path_mkdir False True p fs = Inr fs)"
| "redone fs (WriteFile p s) =
     (case fs_step (WriteFile p s) fs of Inl e \<Rightarrow> False | Inr fs' \<Rightarrow> fs' p = Some (File s))"
| "redone fs ev = True"

subsection \<open>The invocations of the helper\<close>

text \<open>
  Every invocation of \<^verbatim>\<open>create_files_and_dirs\<close> that the loop over \<open>items\<close> makes, directly or
  further down, with the filesystem it finds on entry: the walk is that of
  \<open>create_files_and_dirs\<close>, and each recursive call is noted when it is made.
  \<open>helper_calls\<close> are the invocations of a whole run of \<^verbatim>\<open>create_structure\<close>, the first one
  on \<^verbatim>\<open>base_dir\<close> included.
\<close>

fun invocations :: "path \<Rightarrow> tree \<Rightarrow> world \<Rightarrow> (path \<times> fs) list" where
  "invocations parent_path [] w = []"
| "invocations parent_path ((name, Dict d) # items) w =
     (let current_path = parent_path @ [name] in
      case mkdir_exist_ok current_path w of
        (Some e, w1) \<Rightarrow> []
      | (None, w1) \<Rightarrow>
          (current_path, files w1) # invocations current_path d w1 @
          (case create_files_and_dirs current_path d w1 of
             (Some e, w2) \<Rightarrow> []
           | (None, w2) \<Rightarrow> invocations parent_path items w2))"
| "invocations parent_path ((name, Str s) # items) w =
     (let current_path = parent_path @ [name] in
      case write_file current_path s w of
        (Some e, w1) \<Rightarrow> []
      | (None, w1) \<Rightarrow> invocations parent_path items w1)"

definition helper_calls :: "path \<Rightarrow> tree \<Rightarrow> world \<Rightarrow> (path \<times> fs) list" where
  "helper_calls base_dir structure w =
     (case mkdir_parents_exist_ok base_dir w of
        (Some e, w1) \<Rightarrow> []
      | (None, w1) \<Rightarrow> (base_dir, files w1) # invocations base_dir structure w1)"

subsection \<open>Filesystems that can exist\<close>

text \<open>
  In a filesystem that can exist, the working directory is a directory and whatever is at a
  path has a directory as its parent. The operations keep it so (\<open>create_structure_wf\<close>
  below), so a directory under a regular file, where \<open>is_dir\<close> above and \<^verbatim>\<open>stat\<close> would
  differ, is never met.
\<close>

definition wf_fs :: "fs \<Rightarrow> bool" where
  "wf_fs fs \<longleftrightarrow>
     fs [] = Some Dir \<and> (\<forall>p. p \<noteq> [] \<and> fs p \<noteq> None \<longrightarrow> fs (parent p) = Some Dir)"

subsection \<open>Example states\<close>

definition world_of :: "(path \<times> entry) list \<Rightarrow> world" where
  "world_of es = \<lparr>files = map_of es, trace = [], stdout = []\<rparr>"

definition example_tree :: tree where
  \<comment> \<open>the tree \<^verbatim>\<open>{"a.txt": "hi", "b": {"c.txt": ""}}\<close>\<close>
  "example_tree = [(''a.txt'', Str ''hi''), (''b'', Dict [(''c.txt'', Str [])])]"

section \<open>The filesystem with hard links\<close>

text \<open>
  Above, every path has a file of its own. A filesystem with hard links keeps the contents of
  a regular file in an inode, and a directory entry names the inode; two entries can name
  one inode, and what is written through one name is read through the other. The helper
  is embedded a second time on such a disk. Directories have one name each, so whether a
  call raises is decided as above, on what the disk shows at each path (\<open>view\<close>); a new file
  gets an inode that no entry names. The entries and the inodes are association lists, the
  latest entry first.
\<close>

type_synonym inode = nat

datatype dirent = DirEnt | FileEnt inode

record disk =
  dirents :: "(path \<times> dirent) list"
  inodes :: "(inode \<times> string) list"

definition dirent_at :: "disk \<Rightarrow> path \<Rightarrow> dirent option" where
  "dirent_at d p = map_of (dirents d) p"

definition file_data :: "disk \<Rightarrow> inode \<Rightarrow> string" where
  "file_data d i = (case map_of (inodes d) i of Some s \<Rightarrow> s | None \<Rightarrow> [])"

fun fresh_inode :: "(path \<times> dirent) list \<Rightarrow> inode" where
  "fresh_inode [] = 0"
| "fresh_inode ((p, DirEnt) # es) = fresh_inode es"
| "fresh_inode ((p, FileEnt i) # es) = max (Suc i) (fresh_inode es)"

definition view :: "disk \<Rightarrow> fs" where
  "view d p =
     (case dirent_at d p of
        None \<Rightarrow> None
      | Some DirEnt \<Rightarrow> Some Dir
      | Some (FileEnt i) \<Rightarrow> Some (File (file_data d i)))"

definition same_file :: "disk \<Rightarrow> path \<Rightarrow> path \<Rightarrow> bool" where
  \<comment> \<open>\<open>p\<close> and \<open>q\<close> are names of one regular file\<close>
  "same_file d p q =
     (case dirent_at d p of Some (FileEnt i) \<Rightarrow> dirent_at d q = Some (FileEnt i) | _ \<Rightarrow> False)"

definition disk_mkdir :: "path \<Rightarrow> disk \<Rightarrow> error + disk" where
  \<comment> \<open>\<^verbatim>\<open>current_path.mkdir(exist_ok=True)\<close>\<close>
  "disk_mkdir p d =
     (case path_mkdir False True p (view d) of
        Inl e \<Rightarrow> Inl e
      | Inr fs' \<Rightarrow>
          Inr (if dirent_at d p = None then d\<lparr>dirents := (p, DirEnt) # dirents d\<rparr> else d))"

definition disk_open_w :: "path \<Rightarrow> disk \<Rightarrow> error + disk" where
  \<comment> \<open>\<^verbatim>\<open>open(p, "w")\<close>: truncates the inode that \<open>p\<close> names, or makes a new one\<close>
  "disk_open_w p d =
     (case open_w p (view d) of
        Inl e \<Rightarrow> Inl e
      | Inr fs' \<Rightarrow>
          (case dirent_at d p of
             Some (FileEnt i) \<Rightarrow> Inr (d\<lparr>inodes := (i, []) # inodes d\<rparr>)
           | _ \<Rightarrow>
               Inr (d\<lparr>dirents := (p, FileEnt (fresh_inode (dirents d))) # dirents d,
                      inodes := (fresh_inode (dirents d), []) # inodes d\<rparr>)))"

definition disk_f_write :: "path \<Rightarrow> string \<Rightarrow> disk \<Rightarrow> disk" where
  \<comment> \<open>\<^verbatim>\<open>f.write(content)\<close>\<close>
  "disk_f_write p content d =
     (case dirent_at d p of
        Some (FileEnt i) \<Rightarrow> d\<lparr>inodes := (i, file_data d i @ content) # inodes d\<rparr>
      | _ \<Rightarrow> d)"

definition disk_write_file :: "path \<Rightarrow> string \<Rightarrow> disk \<Rightarrow> error + disk" where
  \<comment> \<open>\<^verbatim>\<open>with open(current_path, "w") as f: f.write(content)\<close>\<close>
  "disk_write_file p content d =
     (case disk_open_w p d of Inl e \<Rightarrow> Inl e | Inr d' \<Rightarrow> Inr (disk_f_write p content d'))"

function disk_create_files_and_dirs :: "path \<Rightarrow> tree \<Rightarrow> disk \<Rightarrow> error option \<times> disk" where
  "disk_create_files_and_dirs parent_path [] d = (None, d)"
| "disk_create_files_and_dirs parent_path ((name, Dict c) # items) d =
     (let current_path = parent_path @ [name] in
      case disk_mkdir current_path d of
        Inl e \<Rightarrow> (Some e, d)
      | Inr d1 \<Rightarrow>
          (case disk_create_files_and_dirs current_path c d1 of
             (Some e, d2) \<Rightarrow> (Some e, d2)
           | (None, d2) \<Rightarrow> disk_create_files_and_dirs parent_path items d2))"
| "disk_create_files_and_dirs parent_path ((name, Str s) # items) d =
     (let current_path = parent_path @ [name] in
      case disk_write_file current_path s d of
        Inl e \<Rightarrow> (Some e, d)
      | Inr d1 \<Rightarrow> disk_create_files_and_dirs parent_path items d1)"
  by pat_completeness auto
termination
  by (relation "measure (\<lambda>(p, items, d). size (Dict items))") auto

text \<open>The statements of a walk, carried out on the disk.\<close>

fun disk_step :: "event \<Rightarrow> disk \<Rightarrow> error + disk" where
  "disk_step (Mkdir p) d = disk_mkdir p d"
| "disk_step (WriteFile p s) d = disk_write_file p s d"
| "disk_step ev d = Inr d"

fun disk_exec :: "event list \<Rightarrow> disk \<Rightarrow> error option \<times> disk" where
  "disk_exec [] d = (None, d)"
| "disk_exec (ev # evs) d =
     (case disk_step ev d of Inl e \<Rightarrow> (Some e, d) | Inr d' \<Rightarrow> disk_exec evs d')"

text \<open>A disk on which every regular file has one name.\<close>

definition link_free :: "disk \<Rightarrow> bool" where
  "link_free d \<longleftrightarrow>
     (\<forall>p q i. dirent_at d p = Some (FileEnt i) \<and> dirent_at d q = Some (FileEnt i) \<longrightarrow> p = q)"

text \<open>What the disk holds at \<open>q\<close> is what \<open>d0\<close> held there: the same entry, the same contents.\<close>

definition kept :: "disk \<Rightarrow> path \<Rightarrow> disk \<Rightarrow> bool" where
  "kept d0 q d \<longleftrightarrow>
     dirent_at d q = dirent_at d0 q \<and>
     (\<forall>i. dirent_at d0 q = Some (FileEnt i) \<longrightarrow> file_data d i = file_data d0 i)"

section \<open>Lemmas\<close>

declare path_mkdir.simps [simp del]

lemma no_collision_simps [simp]:
  "no_collision fs P [] = True"
  "no_collision fs P ((name, Dict d) # items) =
     (\<not> is_file fs (P @ [name]) \<and> no_collision fs (P @ [name]) d \<and> no_collision fs P items)"
  "no_collision fs P ((name, Str s) # items) =
     (\<not> is_dir fs (P @ [name]) \<and> no_collision fs P items)"
  by (auto simp: no_collision_def)

lemma path_mkdir_noparents:
  "path_mkdir False exist_ok p fs =
     (case os_mkdir p fs of
        Inr fs' \<Rightarrow> Inr fs'
      | Inl e \<Rightarrow> if e = FileNotFoundError \<or> \<not> exist_ok \<or> \<not> is_dir fs p then Inl e else Inr fs)"
  by (subst path_mkdir.simps) (simp split: sum.splits)

lemma mkdir_success:
  "path_mkdir False True p fs = Inr fs' \<Longrightarrow> fs' = fs(p \<mapsto> Dir)"
  by (auto simp: path_mkdir_noparents os_mkdir_def is_dir_def
           split: sum.splits if_splits option.splits entry.splits)

lemma write_success:
  "fs_step (WriteFile p s) fs = Inr fs' \<Longrightarrow> fs' = fs(p \<mapsto> File s)"
  by (auto simp: open_w_def f_write_def split: sum.splits if_splits option.splits entry.splits)

lemma mkdir_ok_iff:
  "fs (parent p) = Some Dir \<Longrightarrow> p \<noteq> [] \<Longrightarrow>
   (\<exists>fs'. path_mkdir False True p fs = Inr fs') \<longleftrightarrow> \<not> is_file fs p"
  by (auto simp: path_mkdir_noparents os_mkdir_def is_dir_def is_file_def
           split: sum.splits if_splits option.splits entry.splits)

lemma write_ok_iff:
  "fs (parent p) = Some Dir \<Longrightarrow> p \<noteq> [] \<Longrightarrow>
   (\<exists>fs'. fs_step (WriteFile p s) fs = Inr fs') \<longleftrightarrow> \<not> is_dir fs p"
  by (auto simp: open_w_def f_write_def is_dir_def
           split: sum.splits if_splits option.splits entry.splits)

lemma exec_append:
  "exec (xs @ ys) fs =
     (case exec xs fs of (Some e, fs') \<Rightarrow> (Some e, fs') | (None, fs') \<Rightarrow> exec ys fs')"
  by (induction xs arbitrary: fs) (auto split: sum.splits)


lemma run_append:
  "run (xs @ ys) w =
     (case run xs w of (Some e, w') \<Rightarrow> (Some e, w') | (None, w') \<Rightarrow> run ys w')"
  by (induction xs arbitrary: w) (auto split: prod.splits option.splits)

lemma cfd_run: "create_files_and_dirs P T w = run (visit_order P T) w"
proof (induction P T w rule: create_files_and_dirs.induct)
  case (1 parent_path w)
  then show ?case by simp
next
  case (2 parent_path name d items w)
  let ?p = "parent_path @ [name]"
  obtain r w1 where m: "mkdir_exist_ok ?p w = (r, w1)" by force
  show ?case
  proof (cases r)
    case (Some e)
    with m show ?thesis by simp
  next
    case None
    obtain r2 w2 where c: "create_files_and_dirs ?p d w1 = (r2, w2)" by force
    have ih1: "run (visit_order ?p d) w1 = (r2, w2)"
      using "2.IH"(1) [OF refl m [symmetric] None] c by simp
    show ?thesis
    proof (cases r2)
      case (Some e)
      with m None c ih1 show ?thesis by (simp add: run_append)
    next
      case r2: None
      have "create_files_and_dirs parent_path items w2 = run (visit_order parent_path items) w2"
        using "2.IH"(2) [OF refl m [symmetric] None c [symmetric] r2] .
      with m None c ih1 r2 show ?thesis by (simp add: run_append)
    qed
  qed
next
  case (3 parent_path name s items w)
  let ?p = "parent_path @ [name]"
  obtain r w1 where m: "write_file ?p s w = (r, w1)" by force
  show ?case
  proof (cases r)
    case (Some e)
    with m show ?thesis by simp
  next
    case None
    have "create_files_and_dirs parent_path items w1 = run (visit_order parent_path items) w1"
      using "3.IH" [OF refl m [symmetric] None] .
    with m None show ?thesis by simp
  qed
qed

lemma perform_result:
  "perform ev w = (r, w1) \<Longrightarrow>
     trace w1 = trace w @ [ev] \<and>
     stdout w1 = stdout w @ (case ev of Print s \<Rightarrow> [s] | _ \<Rightarrow> []) \<and>
     (case fs_step ev (files w) of
        Inl e \<Rightarrow> r = Some e \<and> files w1 = files w
      | Inr fs' \<Rightarrow> r = None \<and> files w1 = fs')"
  by (cases ev)
     (auto simp: mkdir_exist_ok_def mkdir_parents_exist_ok_def write_file_def print_def log_event_def
           split: sum.splits)

lemma run_exec:
  "fst (run evs w) = fst (exec evs (files w)) \<and>
   files (snd (run evs w)) = snd (exec evs (files w)) \<and>
   trace (snd (run evs w)) = trace w @ take (attempted evs (files w)) evs"
proof (induction evs arbitrary: w)
  case Nil
  then show ?case by simp
next
  case (Cons ev evs)
  obtain r w1 where p: "perform ev w = (r, w1)" by force
  from perform_result [OF p] Cons [of w1] p show ?case
    by (auto split: sum.splits)
qed

lemma attempted_success:
  "fst (exec evs fs) = None \<Longrightarrow> attempted evs fs = length evs"
  by (induction evs arbitrary: fs) (auto split: sum.splits)

lemma attempted_le: "attempted evs fs \<le> length evs"
  by (induction evs arbitrary: fs) (auto split: sum.splits)

lemma os_mkdir_effect:
  "os_mkdir p fs = Inr fs' \<Longrightarrow> fs p = None \<and> fs' = fs(p \<mapsto> Dir)"
  by (auto simp: os_mkdir_def split: if_splits option.splits entry.splits)

lemma prefix_parent: "prefix q (parent p) \<Longrightarrow> prefix q p"
  unfolding parent_def by (metis prefix_order.dual_order.trans prefixeq_butlast)

lemma path_mkdir_effect:
  "path_mkdir a b p fs = Inr fs' \<Longrightarrow>
   fs' q = fs q \<or> (fs q = None \<and> fs' q = Some Dir \<and> prefix q p)"
proof (induction a b p fs arbitrary: fs' rule: path_mkdir.induct)
  case (1 parents exist_ok p fs)
  show ?case
  proof (cases "os_mkdir p fs")
    case (Inr fs1)
    with "1.prems" have "fs' = fs1" by (simp add: path_mkdir.simps [of parents exist_ok p fs])
    with os_mkdir_effect [OF Inr] show ?thesis by auto
  next
    case (Inl e)
    show ?thesis
    proof (cases "e = FileNotFoundError")
      case False
      with Inl "1.prems" have "fs' = fs"
        by (simp add: path_mkdir.simps [of parents exist_ok p fs] split: if_splits)
      then show ?thesis by simp
    next
      case True
      with Inl "1.prems" have np: "\<not> (\<not> parents \<or> parent p = p)"
        by (simp add: path_mkdir.simps [of parents exist_ok p fs] split: if_splits)
      from True Inl "1.prems" np obtain fs1 where
        a: "path_mkdir True True (parent p) fs = Inr fs1" and
        b: "path_mkdir False exist_ok p fs1 = Inr fs'"
        by (simp add: path_mkdir.simps [of parents exist_ok p fs] split: if_splits sum.splits)
      from "1.IH"(1) [OF Inl True np a]
      have s1: "fs1 q = fs q \<or> (fs q = None \<and> fs1 q = Some Dir \<and> prefix q (parent p))" .
      from "1.IH"(2) [OF Inl True np a b]
      have s2: "fs' q = fs1 q \<or> (fs1 q = None \<and> fs' q = Some Dir \<and> prefix q p)" .
      from s1 s2 show ?thesis by (auto dest: prefix_parent)
    qed
  qed
qed

lemma path_mkdir_post:
  "path_mkdir a True p fs = Inr fs' \<Longrightarrow> fs' p = Some Dir"
proof (induction a "True" p fs arbitrary: fs' rule: path_mkdir.induct)
  case (1 parents p fs)
  show ?case
  proof (cases "os_mkdir p fs")
    case (Inr fs1)
    with "1.prems" have "fs' = fs1" by (simp add: path_mkdir.simps [of parents True p fs])
    with os_mkdir_effect [OF Inr] show ?thesis by auto
  next
    case (Inl e)
    show ?thesis
    proof (cases "e = FileNotFoundError")
      case False
      with Inl "1.prems" show ?thesis
        by (simp add: path_mkdir.simps [of parents True p fs] is_dir_def split: if_splits)
    next
      case True
      with Inl "1.prems" obtain fs1 where
        b: "path_mkdir False True p fs1 = Inr fs'"
        by (simp add: path_mkdir.simps [of parents True p fs] split: if_splits sum.splits)
      then show ?thesis by (auto dest: mkdir_success)
    qed
  qed
qed

lemma fs_step_effect:
  "fs_step ev fs = Inr fs' \<Longrightarrow> q \<notin> touched ev \<Longrightarrow> fs' q = fs q"
  by (cases ev)
     (auto simp del: fs_step.simps(3) dest: mkdir_success write_success path_mkdir_effect [where q = q])

lemma fs_step_dir:
  "fs_step ev fs = Inr fs' \<Longrightarrow> fs q = Some Dir \<Longrightarrow> fs' q = Some Dir"
proof (cases ev)
  case (WriteFile p s)
  assume "fs_step ev fs = Inr fs'" "fs q = Some Dir"
  with WriteFile show ?thesis
    by (auto simp: open_w_def f_write_def split: sum.splits if_splits option.splits entry.splits)
qed (auto dest: path_mkdir_effect [where q = q])

lemma fs_step_file:
  "fs_step ev fs = Inr fs' \<Longrightarrow> is_file fs q \<Longrightarrow> is_file fs' q"
proof (cases ev)
  case (WriteFile p s)
  assume "fs_step ev fs = Inr fs'" "is_file fs q"
  with WriteFile show ?thesis
    by (auto simp: open_w_def f_write_def is_file_def split: sum.splits if_splits option.splits entry.splits)
qed (auto simp: is_file_def dest: path_mkdir_effect [where q = q])

lemma exec_frame:
  "q \<notin> \<Union> (touched ` set evs) \<Longrightarrow> snd (exec evs fs) q = fs q"
  by (induction evs arbitrary: fs) (auto split: sum.splits dest: fs_step_effect)

lemma exec_dir:
  "fs q = Some Dir \<Longrightarrow> snd (exec evs fs) q = Some Dir"
  by (induction evs arbitrary: fs) (auto split: sum.splits dest: fs_step_dir)

lemma exec_file:
  "is_file fs q \<Longrightarrow> is_file (snd (exec evs fs)) q"
  by (induction evs arbitrary: fs) (auto split: sum.splits dest: fs_step_file)

lemma tree_paths_shape:
  "q \<in> set (tree_paths P T) \<Longrightarrow> \<exists>n r. q = P @ n # r \<and> n \<in> fst ` set T"
proof (induction P T rule: tree_paths.induct)
  case (2 P name d items)
  then show ?case by (auto 4 3)
qed auto

lemma touched_visit_order:
  "\<Union> (touched ` set (visit_order P T)) = set (tree_paths P T)"
  by (induction P T rule: visit_order.induct) auto

lemma tree_paths_below:
  "q \<in> set (tree_paths P T) \<Longrightarrow> strict_prefix P q"
  by (auto dest!: tree_paths_shape simp: strict_prefix_def)

lemma tree_paths_sibling:
  "q \<in> set (tree_paths P items) \<Longrightarrow> name \<notin> fst ` set items \<Longrightarrow> \<not> prefix (P @ [name]) q"
  by (auto dest!: tree_paths_shape simp: prefix_def)

lemma materialized_cong:
  "(\<And>q. q \<in> set (tree_paths P T) \<Longrightarrow> fs q = fs' q) \<Longrightarrow>
   materialized fs P T = materialized fs' P T"
  by (induction P T rule: tree_paths.induct) auto

lemma no_collision_cong:
  "(\<And>q. q \<in> set (tree_paths P T) \<Longrightarrow> fs q = fs' q) \<Longrightarrow>
   no_collision fs P T = no_collision fs' P T"
  by (induction P T rule: tree_paths.induct) (auto simp: is_dir_def is_file_def)

lemma exec_visit_frame:
  "q \<notin> set (tree_paths P T) \<Longrightarrow> snd (exec (visit_order P T) fs) q = fs q"
  by (rule exec_frame) (simp add: touched_visit_order)

lemma exec_Cons_ok:
  "fst (exec (ev # evs) fs) = None \<Longrightarrow>
   \<exists>fs1. fs_step ev fs = Inr fs1 \<and> exec (ev # evs) fs = exec evs fs1"
  by (auto split: sum.splits)

lemma exec_append_ok:
  "fst (exec (xs @ ys) fs) = None \<longleftrightarrow>
   fst (exec xs fs) = None \<and> fst (exec ys (snd (exec xs fs))) = None"
  by (auto simp: exec_append split: prod.splits option.splits)

lemma exec_append_snd:
  "fst (exec xs fs) = None \<Longrightarrow> snd (exec (xs @ ys) fs) = snd (exec ys (snd (exec xs fs)))"
  by (auto simp: exec_append split: prod.splits option.splits)

lemma exec_materialized:
  "distinct_keys T \<Longrightarrow> fst (exec (visit_order P T) fs) = None \<Longrightarrow>
   materialized (snd (exec (visit_order P T) fs)) P T"
proof (induction P T arbitrary: fs rule: visit_order.induct)
  case (1 P)
  then show ?case by simp
next
  case (2 P name d items)
  let ?p = "P @ [name]"
  let ?A = "visit_order ?p d" and ?B = "visit_order P items"
  from "2.prems"(2) obtain fs1 where
    s: "path_mkdir False True ?p fs = Inr fs1" by (auto split: sum.splits)
  with "2.prems"(2) have ok: "fst (exec (?A @ ?B) fs1) = None" by simp
  then have okA: "fst (exec ?A fs1) = None" and okB: "fst (exec ?B (snd (exec ?A fs1))) = None"
    by (simp_all add: exec_append_ok)
  let ?fs2 = "snd (exec ?A fs1)" and ?fs3 = "snd (exec ?B (snd (exec ?A fs1)))"
  have fin: "snd (exec (visit_order P ((name, Dict d) # items)) fs) = ?fs3"
    using s okA by (simp add: exec_append_snd)
  have "fs1 ?p = Some Dir" using mkdir_success [OF s] by simp
  then have d3: "?fs3 ?p = Some Dir" by (simp add: exec_dir)
  have m2: "materialized ?fs2 ?p d" using "2.IH"(1) "2.prems"(1) okA by simp
  have "materialized ?fs3 ?p d = materialized ?fs2 ?p d"
  proof (rule materialized_cong)
    fix q assume "q \<in> set (tree_paths ?p d)"
    then have "prefix ?p q" by (auto dest: tree_paths_below)
    with "2.prems"(1) have "q \<notin> set (tree_paths P items)"
      by (auto dest: tree_paths_sibling)
    then show "?fs3 q = ?fs2 q" by (rule exec_visit_frame)
  qed
  with m2 have m3: "materialized ?fs3 ?p d" by simp
  have m4: "materialized ?fs3 P items" using "2.IH"(2) "2.prems"(1) okB by simp
  from d3 m3 m4 fin show ?case by simp
next
  case (3 P name s items)
  let ?p = "P @ [name]"
  let ?B = "visit_order P items"
  from "3.prems"(2) obtain fs1 where
    s: "fs_step (WriteFile ?p s) fs = Inr fs1" by (auto split: sum.splits)
  with "3.prems"(2) have okB: "fst (exec ?B fs1) = None" by (auto split: sum.splits)
  have fin: "snd (exec (visit_order P ((name, Str s) # items)) fs) = snd (exec ?B fs1)"
    using s by (auto split: sum.splits)
  have f1: "fs1 ?p = Some (File s)" using write_success [OF s] by simp
  have "?p \<notin> set (tree_paths P items)"
    using "3.prems"(1) by (auto dest: tree_paths_sibling)
  then have "snd (exec ?B fs1) ?p = fs1 ?p" by (rule exec_visit_frame)
  with f1 have f2: "snd (exec ?B fs1) ?p = Some (File s)" by simp
  have m: "materialized (snd (exec ?B fs1)) P items" using "3.IH" "3.prems"(1) okB by simp
  from f2 m fin show ?case by simp
qed

lemma exec_ok_iff:
  "distinct_keys T \<Longrightarrow> fs P = Some Dir \<Longrightarrow>
   fst (exec (visit_order P T) fs) = None \<longleftrightarrow> no_collision fs P T"
proof (induction P T arbitrary: fs rule: visit_order.induct)
  case (1 P)
  then show ?case by simp
next
  case (2 P name d items)
  let ?p = "P @ [name]"
  let ?A = "visit_order ?p d" and ?B = "visit_order P items"
  have par: "fs (parent ?p) = Some Dir" "?p \<noteq> []" using "2.prems"(2) by (simp_all add: parent_def)
  show ?case
  proof (cases "is_file fs ?p")
    case True
    with mkdir_ok_iff [of fs ?p] par have "\<And>fs'. path_mkdir False True ?p fs \<noteq> Inr fs'" by blast
    with True show ?thesis by (auto split: sum.splits)
  next
    case False
    with mkdir_ok_iff [of fs ?p] par obtain fs1 where s: "path_mkdir False True ?p fs = Inr fs1"
      by blast
    have fs1: "fs1 = fs(?p \<mapsto> Dir)" by (rule mkdir_success [OF s])
    let ?fs2 = "snd (exec ?A fs1)"
    have "fs1 ?p = Some Dir" by (simp add: fs1)
    then have a: "fst (exec ?A fs1) = None \<longleftrightarrow> no_collision fs1 ?p d"
      using "2.IH"(1) [of fs1] "2.prems"(1) by simp
    have "no_collision fs1 ?p d = no_collision fs ?p d"
    proof (rule no_collision_cong)
      fix q assume "q \<in> set (tree_paths ?p d)"
      then have "q \<noteq> ?p" by (auto dest: tree_paths_below)
      then show "fs1 q = fs q" by (simp add: fs1)
    qed
    with a have a': "fst (exec ?A fs1) = None \<longleftrightarrow> no_collision fs ?p d" by simp
    have "fs1 P = Some Dir" using "2.prems"(2) by (simp add: fs1)
    then have "?fs2 P = Some Dir" by (simp add: exec_dir)
    then have b: "fst (exec ?B ?fs2) = None \<longleftrightarrow> no_collision ?fs2 P items"
      using "2.IH"(2) [of ?fs2] "2.prems"(1) by simp
    have "no_collision ?fs2 P items = no_collision fs P items"
    proof (rule no_collision_cong)
      fix q assume q: "q \<in> set (tree_paths P items)"
      with "2.prems"(1) have np: "\<not> prefix ?p q" by (auto dest: tree_paths_sibling)
      then have "q \<notin> set (tree_paths ?p d)" by (auto dest: tree_paths_below)
      then have "?fs2 q = fs1 q" by (rule exec_visit_frame)
      moreover from np have "q \<noteq> ?p" by auto
      ultimately show "?fs2 q = fs q" by (simp add: fs1)
    qed
    with b have b': "fst (exec ?B ?fs2) = None \<longleftrightarrow> no_collision fs P items" by simp
    have "fst (exec (visit_order P ((name, Dict d) # items)) fs) = fst (exec (?A @ ?B) fs1)"
      using s by simp
    with a' b' False show ?thesis by (simp add: exec_append_ok)
  qed
next
  case (3 P name s items)
  let ?p = "P @ [name]"
  let ?B = "visit_order P items"
  have par: "fs (parent ?p) = Some Dir" "?p \<noteq> []" using "3.prems"(2) by (simp_all add: parent_def)
  show ?case
  proof (cases "is_dir fs ?p")
    case True
    with write_ok_iff [of fs ?p s] par have "\<And>fs'. fs_step (WriteFile ?p s) fs \<noteq> Inr fs'" by blast
    with True show ?thesis by (auto simp del: fs_step.simps split: sum.splits)
  next
    case False
    with write_ok_iff [of fs ?p s] par obtain fs1 where
      s: "fs_step (WriteFile ?p s) fs = Inr fs1" by blast
    have fs1: "fs1 = fs(?p \<mapsto> File s)" by (rule write_success [OF s])
    have "fs1 P = Some Dir" using "3.prems"(2) by (simp add: fs1)
    then have b: "fst (exec ?B fs1) = None \<longleftrightarrow> no_collision fs1 P items"
      using "3.IH" [of fs1] "3.prems"(1) by simp
    have "no_collision fs1 P items = no_collision fs P items"
    proof (rule no_collision_cong)
      fix q assume q: "q \<in> set (tree_paths P items)"
      with "3.prems"(1) have "\<not> prefix ?p q" by (auto dest: tree_paths_sibling)
      then have "q \<noteq> ?p" by auto
      then show "fs1 q = fs q" by (simp add: fs1)
    qed
    with b have b': "fst (exec ?B fs1) = None \<longleftrightarrow> no_collision fs P items" by simp
    have "fst (exec (visit_order P ((name, Str s) # items)) fs) = fst (exec ?B fs1)"
      using s by (simp del: fs_step.simps)
    with b' False show ?thesis by simp
  qed
qed

lemma visit_order_entry_events: "list_all entry_event (visit_order P T)"
  by (induction P T rule: visit_order.induct) auto

lemma visit_order_paths: "map ev_path (visit_order P T) = tree_paths P T"
  by (induction P T rule: visit_order.induct) auto

lemma entry_event_touched: "entry_event ev \<Longrightarrow> touched ev = {ev_path ev}"
  by (cases ev) auto

lemma distinct_tree_paths: "distinct_keys T \<Longrightarrow> distinct (tree_paths P T)"
proof (induction P T rule: tree_paths.induct)
  case (1 P)
  then show ?case by simp
next
  case (2 P name d items)
  let ?p = "P @ [name]"
  have a: "?p \<notin> set (tree_paths ?p d)" by (auto dest: tree_paths_below)
  have b: "?p \<notin> set (tree_paths P items)" using "2.prems" by (auto dest: tree_paths_sibling)
  have c: "set (tree_paths ?p d) \<inter> set (tree_paths P items) = {}"
  proof -
    { fix q assume "q \<in> set (tree_paths ?p d)" and q: "q \<in> set (tree_paths P items)"
      then have "prefix ?p q" by (auto dest: tree_paths_below)
      with q "2.prems" have False by (auto dest: tree_paths_sibling) }
    then show ?thesis by blast
  qed
  from a b c "2.IH" "2.prems" show ?case by simp
next
  case (3 P name s items)
  have "P @ [name] \<notin> set (tree_paths P items)" using "3.prems" by (auto dest: tree_paths_sibling)
  with "3.IH" "3.prems" show ?case by simp
qed

lemma fs_step_entry_success:
  "entry_event ev \<Longrightarrow> fs_step ev fs = Inr fs' \<Longrightarrow>
   achieved fs' ev \<and> (\<forall>q. q \<noteq> ev_path ev \<longrightarrow> fs' q = fs q)"
  by (cases ev) (auto simp del: fs_step.simps(3) dest: mkdir_success write_success)

lemma parent_neq: "p \<noteq> [] \<Longrightarrow> parent p \<noteq> p"
  unfolding parent_def by (induction p) auto

lemma step_stable:
  assumes "entry_event ev" and "fs_step ev fs = Inr fs1"
    and same: "fs2 (ev_path ev) = fs1 (ev_path ev)"
    and dirs: "\<And>q. fs1 q = Some Dir \<Longrightarrow> fs2 q = Some Dir"
    and fils: "\<And>q. is_file fs1 q \<Longrightarrow> is_file fs2 q"
  shows "fs_step ev fs2 = Inr fs2"
proof (cases ev)
  case (Mkdir p)
  with assms(2) have s: "path_mkdir False True p fs = Inr fs1" by simp
  have fs1: "fs1 = fs(p \<mapsto> Dir)" by (rule mkdir_success [OF s])
  then have p2: "fs2 p = Some Dir" using same Mkdir by simp
  show ?thesis
  proof (cases "p = []")
    case True
    with p2 Mkdir show ?thesis by (simp add: path_mkdir_noparents os_mkdir_def is_dir_def)
  next
    case False
    then have ne: "parent p \<noteq> p" by (rule parent_neq)
    from s have "os_mkdir p fs \<noteq> Inl FileNotFoundError"
      by (auto simp: path_mkdir_noparents split: sum.splits if_splits)
    with False have "fs (parent p) \<noteq> None \<or> below_file fs (parent p)"
      by (auto simp: os_mkdir_def lookup_error_def split: if_splits option.splits)
    then have "fs2 (parent p) \<noteq> None \<or> below_file fs2 (parent p)"
    proof
      assume "fs (parent p) \<noteq> None"
      with ne have "fs1 (parent p) = Some Dir \<or> is_file fs1 (parent p)"
        by (auto simp: fs1 is_file_def split: entry.splits)
      then have "fs2 (parent p) = Some Dir \<or> is_file fs2 (parent p)"
        using dirs fils by blast
      then show ?thesis by (auto simp: is_file_def split: option.splits)
    next
      assume "below_file fs (parent p)"
      then obtain r where r: "prefix r (parent p)" "is_file fs r"
        by (auto simp: below_file_def list_ex_iff)
      have "r \<noteq> p"
      proof
        assume "r = p"
        with r(1) have "prefix p (butlast p)" by (simp add: parent_def)
        then have "length p \<le> length (butlast p)" by (rule prefix_length_le)
        moreover have "length (butlast p) = length p - 1" by (rule length_butlast)
        moreover from False have "0 < length p" by simp
        ultimately show False by arith
      qed
      with r(2) have "is_file fs1 r" by (simp add: fs1 is_file_def)
      then have "is_file fs2 r" by (rule fils)
      with r(1) show ?thesis by (auto simp: below_file_def list_ex_iff)
    qed
    with p2 False Mkdir show ?thesis
      by (auto simp: path_mkdir_noparents os_mkdir_def lookup_error_def is_dir_def
               split: option.splits entry.splits)
  qed
next
  case (WriteFile p s)
  with assms(2) have s: "fs_step (WriteFile p s) fs = Inr fs1" by simp
  have fs1: "fs1 = fs(p \<mapsto> File s)" by (rule write_success [OF s])
  then have p2: "fs2 p = Some (File s)" using same WriteFile by simp
  from s have ne: "p \<noteq> []" and "fs (parent p) = Some Dir"
    by (auto simp: open_w_def split: if_splits option.splits entry.splits sum.splits)
  then have "fs1 (parent p) = Some Dir" using parent_neq [of p] by (auto simp: fs1)
  then have "fs2 (parent p) = Some Dir" by (rule dirs)
  with p2 ne have "fs_step (WriteFile p s) fs2 = Inr (fs2(p \<mapsto> File s))"
    by (simp add: open_w_def f_write_def)
  moreover have "fs2(p \<mapsto> File s) = fs2" using p2 by (rule map_upd_triv)
  ultimately show ?thesis using WriteFile by simp
qed (use assms(1) in auto)

lemma exec_idem:
  "list_all entry_event evs \<Longrightarrow> distinct (map ev_path evs) \<Longrightarrow>
   exec evs (snd (exec evs fs)) = exec evs fs"
proof (induction evs arbitrary: fs)
  case Nil
  then show ?case by simp
next
  case (Cons ev evs)
  show ?case
  proof (cases "fs_step ev fs")
    case (Inl e)
    then show ?thesis by simp
  next
    case (Inr fs1)
    let ?fs2 = "snd (exec evs fs1)"
    have ee: "entry_event ev" using Cons.prems(1) by simp
    have "ev_path ev \<notin> \<Union> (touched ` set evs)"
      using Cons.prems by (auto simp: list_all_iff entry_event_touched)
    then have same: "?fs2 (ev_path ev) = fs1 (ev_path ev)" by (rule exec_frame)
    have st: "fs_step ev ?fs2 = Inr ?fs2"
      by (rule step_stable [where ?fs2.0 = "?fs2", OF ee Inr same]) (simp_all add: exec_dir exec_file)
    have "exec evs ?fs2 = exec evs fs1" using Cons.IH [of fs1] Cons.prems by simp
    with Inr st show ?thesis by simp
  qed
qed

lemma exec_achieved:
  "list_all entry_event evs \<Longrightarrow> distinct (map ev_path evs) \<Longrightarrow>
   fst (exec evs fs) = None \<Longrightarrow> ev \<in> set evs \<Longrightarrow> achieved (snd (exec evs fs)) ev"
proof (induction evs arbitrary: fs)
  case Nil
  then show ?case by simp
next
  case (Cons a evs)
  from Cons.prems(3) obtain fs1 where s: "fs_step a fs = Inr fs1"
    and ex: "exec (a # evs) fs = exec evs fs1"
    by (auto split: sum.splits)
  show ?case
  proof (cases "ev \<in> set evs")
    case True
    with Cons.IH [of fs1] Cons.prems ex show ?thesis by simp
  next
    case False
    with Cons.prems(4) have [simp]: "ev = a" by simp
    have ee: "entry_event a" using Cons.prems(1) by simp
    have "ev_path a \<notin> \<Union> (touched ` set evs)"
      using Cons.prems by (auto simp: list_all_iff entry_event_touched)
    then have "snd (exec evs fs1) (ev_path a) = fs1 (ev_path a)" by (rule exec_frame)
    moreover have "achieved fs1 a" using fs_step_entry_success [OF ee s] by simp
    ultimately show ?thesis using ex ee by (cases a) auto
  qed
qed


lemma mkdir_exist_ok_result:
  "mkdir_exist_ok p w = (r, w1) \<Longrightarrow>
     trace w1 = trace w @ [Mkdir p] \<and> stdout w1 = stdout w \<and>
     (case path_mkdir False True p (files w) of
        Inl e \<Rightarrow> r = Some e \<and> files w1 = files w
      | Inr fs' \<Rightarrow> r = None \<and> files w1 = fs')"
  using perform_result [of "Mkdir p" w r w1] by simp

lemma write_file_result:
  "write_file p s w = (r, w1) \<Longrightarrow>
     trace w1 = trace w @ [WriteFile p s] \<and> stdout w1 = stdout w \<and>
     (case fs_step (WriteFile p s) (files w) of
        Inl e \<Rightarrow> r = Some e \<and> files w1 = files w
      | Inr fs' \<Rightarrow> r = None \<and> files w1 = fs')"
  using perform_result [of "WriteFile p s" w r w1] by simp

lemma cfd_dir:
  "files w q = Some Dir \<Longrightarrow> files (snd (create_files_and_dirs P T w)) q = Some Dir"
  by (simp add: cfd_run run_exec exec_dir)

lemma invocations_dirs:
  "files w P = Some Dir \<Longrightarrow> (p, fs) \<in> set (invocations P T w) \<Longrightarrow> fs p = Some Dir"
proof (induction P T w rule: invocations.induct)
  case (1 parent_path w)
  then show ?case by simp
next
  case (2 parent_path name d items w)
  let ?p = "parent_path @ [name]"
  obtain r w1 where m: "mkdir_exist_ok ?p w = (r, w1)" by force
  show ?case
  proof (cases r)
    case (Some e)
    with m "2.prems" show ?thesis by simp
  next
    case None
    from mkdir_exist_ok_result [OF m] None obtain
      s: "path_mkdir False True ?p (files w) = Inr (files w1)"
      by (auto split: sum.splits)
    have d1: "files w1 ?p = Some Dir" using mkdir_success [OF s] by simp
    have P1: "files w1 parent_path = Some Dir"
      using mkdir_success [OF s] "2.prems"(1) by simp
    obtain r2 w2 where c: "create_files_and_dirs ?p d w1 = (r2, w2)" by force
    have P2: "files w2 parent_path = Some Dir" using cfd_dir [OF P1, of ?p d] c by simp
    from "2.prems"(2) m None c
    consider "(p, fs) = (?p, files w1)" | "(p, fs) \<in> set (invocations ?p d w1)"
      | "r2 = None" "(p, fs) \<in> set (invocations parent_path items w2)"
      by (auto simp: Let_def split: option.splits)
    then show ?thesis
    proof cases
      case 1
      with d1 show ?thesis by simp
    next
      case 2
      with "2.IH"(1) [OF refl m [symmetric] None d1] show ?thesis by simp
    next
      case 3
      with "2.IH"(2) [OF refl m [symmetric] None c [symmetric] 3(1) P2] show ?thesis by simp
    qed
  qed
next
  case (3 parent_path name s items w)
  let ?p = "parent_path @ [name]"
  obtain r w1 where m: "write_file ?p s w = (r, w1)" by force
  show ?case
  proof (cases r)
    case (Some e)
    with m "3.prems" show ?thesis by simp
  next
    case None
    from write_file_result [OF m] None obtain
      s: "fs_step (WriteFile ?p s) (files w) = Inr (files w1)"
      by (auto simp del: fs_step.simps split: sum.splits)
    have P1: "files w1 parent_path = Some Dir"
      using fs_step_dir [OF s "3.prems"(1)] .
    from "3.prems"(2) m None have "(p, fs) \<in> set (invocations parent_path items w1)"
      by (simp add: Let_def)
    with "3.IH" [OF refl m [symmetric] None P1] show ?thesis by simp
  qed
qed

lemma path_mkdir_not_missing:
  "parents \<or> p = [] \<or> fs (parent p) \<noteq> None \<Longrightarrow>
   path_mkdir parents exist_ok p fs \<noteq> Inl FileNotFoundError"
proof (induction parents exist_ok p fs rule: path_mkdir.induct)
  case (1 parents exist_ok p fs)
  show ?case
  proof (cases "os_mkdir p fs")
    case (Inr fs1)
    then show ?thesis by (simp add: path_mkdir.simps [of parents exist_ok p fs])
  next
    case (Inl e)
    show ?thesis
    proof (cases "e = FileNotFoundError")
      case False
      with Inl show ?thesis
        by (simp add: path_mkdir.simps [of parents exist_ok p fs])
    next
      case True
      with Inl have pn: "p \<noteq> []" "fs (parent p) = None"
        by (auto simp: os_mkdir_def split: if_splits option.splits entry.splits)
      with "1.prems" have par: parents by simp
      from pn have np: "\<not> (\<not> parents \<or> parent p = p)" using par parent_neq by simp
      show ?thesis
      proof (cases "path_mkdir True True (parent p) fs")
        case (Inl e')
        with "1.IH"(1) [OF \<open>os_mkdir p fs = Inl e\<close> True np] have "e' \<noteq> FileNotFoundError" by simp
        with Inl \<open>os_mkdir p fs = Inl e\<close> True np show ?thesis
          by (subst path_mkdir.simps) simp
      next
        case (Inr fs1)
        have "fs1 (parent p) = Some Dir" by (rule path_mkdir_post [OF Inr])
        with "1.IH"(2) [OF \<open>os_mkdir p fs = Inl e\<close> True np Inr]
        have "path_mkdir False exist_ok p fs1 \<noteq> Inl FileNotFoundError" by simp
        with Inr \<open>os_mkdir p fs = Inl e\<close> True np show ?thesis
          by (subst path_mkdir.simps) simp
      qed
    qed
  qed
qed

lemma open_w_not_missing:
  "fs (parent p) \<noteq> None \<Longrightarrow> fs_step (WriteFile p s) fs \<noteq> Inl FileNotFoundError"
  by (auto simp: open_w_def split: if_splits option.splits entry.splits sum.splits)

lemma exec_not_missing:
  "fs P = Some Dir \<Longrightarrow> fst (exec (visit_order P T) fs) \<noteq> Some FileNotFoundError"
proof (induction P T arbitrary: fs rule: visit_order.induct)
  case (1 P)
  then show ?case by simp
next
  case (2 P name d items)
  let ?p = "P @ [name]"
  let ?A = "visit_order ?p d" and ?B = "visit_order P items"
  have par: "fs (parent ?p) \<noteq> None" using "2.prems" by (simp add: parent_def)
  show ?case
  proof (cases "path_mkdir False True ?p fs")
    case (Inl e)
    with path_mkdir_not_missing [of False ?p fs True] par show ?thesis by simp
  next
    case (Inr fs1)
    have fs1: "fs1 = fs(?p \<mapsto> Dir)" by (rule mkdir_success [OF Inr])
    have "fs1 ?p = Some Dir" by (simp add: fs1)
    then have a: "fst (exec ?A fs1) \<noteq> Some FileNotFoundError" by (rule "2.IH"(1))
    have "fs1 P = Some Dir" using "2.prems" by (simp add: fs1)
    then have "snd (exec ?A fs1) P = Some Dir" by (simp add: exec_dir)
    then have b: "fst (exec ?B (snd (exec ?A fs1))) \<noteq> Some FileNotFoundError"
      using "2.IH"(2) by simp
    from a b Inr show ?thesis
      by (auto simp: exec_append split: prod.splits option.splits)
  qed
next
  case (3 P name s items)
  let ?p = "P @ [name]"
  have par: "fs (parent ?p) \<noteq> None" using "3.prems" by (simp add: parent_def)
  show ?case
  proof (cases "fs_step (WriteFile ?p s) fs")
    case (Inl e)
    with open_w_not_missing [of fs ?p s] par show ?thesis by (auto simp del: fs_step.simps)
  next
    case (Inr fs1)
    have "fs1 P = Some Dir" using fs_step_dir [OF Inr "3.prems"] .
    with "3.IH" [of fs1] Inr show ?thesis by (simp del: fs_step.simps)
  qed
qed

lemma web_cfd_run: "web_create_files_and_dirs P T w = run (visit_order P T) w"
proof (induction P T w rule: web_create_files_and_dirs.induct)
  case (1 parent_path w)
  then show ?case by simp
next
  case (2 parent_path name d items w)
  let ?p = "parent_path @ [name]"
  obtain r w1 where m: "mkdir_exist_ok ?p w = (r, w1)" by force
  show ?case
  proof (cases r)
    case (Some e)
    with m show ?thesis by simp
  next
    case None
    obtain r2 w2 where c: "web_create_files_and_dirs ?p d w1 = (r2, w2)" by force
    have ih1: "run (visit_order ?p d) w1 = (r2, w2)"
      using "2.IH"(1) [OF refl m [symmetric] None] c by simp
    show ?thesis
    proof (cases r2)
      case (Some e)
      with m None c ih1 show ?thesis by (simp add: run_append)
    next
      case r2: None
      have "web_create_files_and_dirs parent_path items w2 = run (visit_order parent_path items) w2"
        using "2.IH"(2) [OF refl m [symmetric] None c [symmetric] r2] .
      with m None c ih1 r2 show ?thesis by (simp add: run_append)
    qed
  qed
next
  case (3 parent_path name s items w)
  let ?p = "parent_path @ [name]"
  obtain r w1 where m: "write_file ?p s w = (r, w1)" by force
  show ?case
  proof (cases r)
    case (Some e)
    with m show ?thesis by simp
  next
    case None
    have "web_create_files_and_dirs parent_path items w1 = run (visit_order parent_path items) w1"
      using "3.IH" [OF refl m [symmetric] None] .
    with m None show ?thesis by simp
  qed
qed

lemma web_cfd_eq: "web_create_files_and_dirs P T w = create_files_and_dirs P T w"
  by (simp add: web_cfd_run cfd_run)

lemma web_create_structure_at_eq:
  "web_create_structure_at base_dir structure w = create_structure base_dir structure w"
  by (simp add: web_create_structure_at_def create_structure_def web_cfd_eq
           split: prod.splits option.splits)

lemma create_structure_run:
  "create_structure base_dir structure w =
     run (MkdirParents base_dir # visit_order base_dir structure @
          [Print (completion_message base_dir)]) w"
  by (auto simp: create_structure_def cfd_run run_append split: prod.splits option.splits)

lemma cfd_fst: "fst (create_files_and_dirs P T w) = fst (exec (visit_order P T) (files w))"
  by (simp add: cfd_run run_exec)

lemma cfd_files:
  "files (snd (create_files_and_dirs P T w)) = snd (exec (visit_order P T) (files w))"
  by (simp add: cfd_run run_exec)

lemma cfd_trace:
  "trace (snd (create_files_and_dirs P T w)) =
     trace w @ take (attempted (visit_order P T) (files w)) (visit_order P T)"
  by (simp add: cfd_run run_exec)

lemma run_stdout:
  "stdout (snd (run evs w)) =
     stdout w @ concat (map (\<lambda>ev. case ev of Print s \<Rightarrow> [s] | _ \<Rightarrow> [])
                        (take (attempted evs (files w)) evs))"
proof (induction evs arbitrary: w)
  case Nil
  then show ?case by simp
next
  case (Cons ev evs)
  obtain r w1 where p: "perform ev w = (r, w1)" by force
  from perform_result [OF p] Cons [of w1] p show ?case
    by (auto split: sum.splits)
qed

lemma entry_events_no_output:
  "list_all entry_event evs \<Longrightarrow>
   concat (map (\<lambda>ev. case ev of Print s \<Rightarrow> [s] | _ \<Rightarrow> []) (take n evs)) = []"
proof (induction evs arbitrary: n)
  case Nil
  then show ?case by simp
next
  case (Cons ev evs)
  then show ?case by (cases n; cases ev) auto
qed

lemma cfd_stdout: "stdout (snd (create_files_and_dirs P T w)) = stdout w"
  by (simp add: cfd_run run_stdout entry_events_no_output visit_order_entry_events)

lemma visit_order_append:
  "visit_order P (xs @ ys) = visit_order P xs @ visit_order P ys"
  by (induction P xs rule: visit_order.induct) auto


lemma cfd_trace_success:
  "fst (create_files_and_dirs P T w) = None \<Longrightarrow>
   take (attempted (visit_order P T) (files w)) (visit_order P T) = visit_order P T"
  by (simp add: cfd_fst attempted_success)

lemma cfd_append:
  "create_files_and_dirs P (xs @ ys) w =
     (case create_files_and_dirs P xs w of
        (Some e, w') \<Rightarrow> (Some e, w')
      | (None, w') \<Rightarrow> create_files_and_dirs P ys w')"
  by (simp add: cfd_run visit_order_append run_append split: prod.splits option.splits)

lemma cfd_materialized:
  "distinct_keys T \<Longrightarrow> fst (create_files_and_dirs P T w) = None \<Longrightarrow>
   materialized (files (snd (create_files_and_dirs P T w))) P T"
  by (simp add: cfd_fst cfd_files exec_materialized)

lemma cfd_ok_iff:
  "distinct_keys T \<Longrightarrow> files w P = Some Dir \<Longrightarrow>
   fst (create_files_and_dirs P T w) = None \<longleftrightarrow> no_collision (files w) P T"
  by (simp add: cfd_fst exec_ok_iff)

lemma mkdir_parents_result:
  "mkdir_parents_exist_ok p w = (r, w1) \<Longrightarrow>
     trace w1 = trace w @ [MkdirParents p] \<and> stdout w1 = stdout w \<and>
     (case path_mkdir True True p (files w) of
        Inl e \<Rightarrow> r = Some e \<and> files w1 = files w
      | Inr fs' \<Rightarrow> r = None \<and> files w1 = fs')"
  using perform_result [of "MkdirParents p" w r w1] by simp

lemma print_ok: "fst (print line w) = None"
  by (simp add: print_def)

lemma no_collision_after_base:
  assumes "path_mkdir True True base fs = Inr fs1"
  shows "no_collision fs1 base T = no_collision fs base T"
proof (rule no_collision_cong)
  fix q assume "q \<in> set (tree_paths base T)"
  then have "strict_prefix base q" by (rule tree_paths_below)
  then have "\<not> prefix q base" by (auto simp: strict_prefix_def)
  with path_mkdir_effect [OF assms, of q] show "fs1 q = fs q" by simp
qed

lemma create_structure_ok_iff:
  assumes "distinct_keys T"
  shows "fst (create_structure base T w) = None \<longleftrightarrow>
         fst (mkdir_parents_exist_ok base w) = None \<and> no_collision (files w) base T"
proof -
  obtain r w1 where m: "mkdir_parents_exist_ok base w = (r, w1)" by force
  note res = mkdir_parents_result [OF m]
  show ?thesis
  proof (cases r)
    case (Some e)
    with m show ?thesis by (simp add: create_structure_def)
  next
    case None
    with res have s: "path_mkdir True True base (files w) = Inr (files w1)"
      by (auto split: sum.splits)
    have d: "files w1 base = Some Dir" by (rule path_mkdir_post [OF s])
    have "fst (create_structure base T w) = None \<longleftrightarrow>
          fst (create_files_and_dirs base T w1) = None"
      using m None by (auto simp: create_structure_def print_ok split: prod.splits option.splits)
    also have "\<dots> \<longleftrightarrow> no_collision (files w1) base T" by (rule cfd_ok_iff [OF assms d])
    also have "\<dots> \<longleftrightarrow> no_collision (files w) base T" by (simp add: no_collision_after_base [OF s])
    finally show ?thesis using m None by simp
  qed
qed

lemma cfd_idem:
  assumes "distinct_keys T"
  shows "exec (visit_order P T) (snd (exec (visit_order P T) fs)) = exec (visit_order P T) fs"
  by (rule exec_idem)
     (simp_all add: visit_order_entry_events visit_order_paths distinct_tree_paths assms)

lemma mkdir_existing:
  "is_dir fs p \<Longrightarrow> is_dir fs (parent p) \<Longrightarrow> path_mkdir False True p fs = Inr fs"
  by (auto simp: path_mkdir_noparents os_mkdir_def is_dir_def)

lemma log_event_files: "(log_event ev w)\<lparr>files := files w\<rparr> = log_event ev w"
  by (simp add: log_event_def)

lemma write_overwrites:
  "is_dir fs (parent p) \<Longrightarrow> \<not> is_dir fs p \<Longrightarrow> p \<noteq> [] \<Longrightarrow>
   fs_step (WriteFile p s) fs = Inr (fs(p \<mapsto> File s))"
  by (auto simp: open_w_def f_write_def is_dir_def split: option.splits entry.splits)





lemma create_structure_cases:
  "(\<exists>e w1. mkdir_parents_exist_ok b w = (Some e, w1) \<and> create_structure b T w = (Some e, w1)) \<or>
   (\<exists>e w1 w2. mkdir_parents_exist_ok b w = (None, w1) \<and>
       create_files_and_dirs b T w1 = (Some e, w2) \<and> create_structure b T w = (Some e, w2)) \<or>
   (\<exists>w1 w2. mkdir_parents_exist_ok b w = (None, w1) \<and>
       create_files_and_dirs b T w1 = (None, w2) \<and>
       create_structure b T w = print (completion_message b) w2)"
proof -
  obtain r w1 where m: "mkdir_parents_exist_ok b w = (r, w1)" by force
  obtain r2 w2 where c: "create_files_and_dirs b T w1 = (r2, w2)" by force
  show ?thesis using m c by (cases r; cases r2) (auto simp: create_structure_def)
qed

lemma create_structure_success:
  assumes "fst (create_structure b T w) = None"
  shows "stdout (snd (create_structure b T w)) = stdout w @ [completion_message b] \<and>
         trace (snd (create_structure b T w)) =
           trace w @ MkdirParents b # visit_order b T @ [Print (completion_message b)]"
proof -
  from create_structure_cases [of b w T] assms obtain w1 w2 where
    m: "mkdir_parents_exist_ok b w = (None, w1)" and
    c: "create_files_and_dirs b T w1 = (None, w2)" and
    r: "create_structure b T w = print (completion_message b) w2"
    by auto
  from mkdir_parents_result [OF m] have 1: "trace w1 = trace w @ [MkdirParents b]"
    "stdout w1 = stdout w" by simp_all
  from c cfd_stdout [of b T w1] have 2: "stdout w2 = stdout w1" by simp
  from c cfd_trace [of b T w1] cfd_trace_success [of b T w1]
  have 3: "trace w2 = trace w1 @ visit_order b T" by simp
  from r 1 2 3 show ?thesis by (simp add: print_def log_event_def)
qed

lemma create_structure_failure:
  assumes "fst (create_structure b T w) \<noteq> None"
  shows "stdout (snd (create_structure b T w)) = stdout w"
proof -
  from create_structure_cases [of b w T] assms consider
    e w1 where "mkdir_parents_exist_ok b w = (Some e, w1)" "create_structure b T w = (Some e, w1)"
  | e w1 w2 where "mkdir_parents_exist_ok b w = (None, w1)"
      "create_files_and_dirs b T w1 = (Some e, w2)" "create_structure b T w = (Some e, w2)"
    by (auto simp: print_ok)
  then show ?thesis
  proof cases
    case 1
    with mkdir_parents_result [OF 1(1)] show ?thesis by simp
  next
    case 2
    with mkdir_parents_result [OF 2(1)] cfd_stdout [of b T w1] show ?thesis by simp
  qed
qed

lemma helper_calls_dirs:
  assumes "(p, fs) \<in> set (helper_calls b T w)"
  shows "fs p = Some Dir"
proof -
  obtain r w1 where m: "mkdir_parents_exist_ok b w = (r, w1)" by force
  show ?thesis
  proof (cases r)
    case (Some e)
    with m assms show ?thesis by (simp add: helper_calls_def)
  next
    case None
    with mkdir_parents_result [OF m] have s: "path_mkdir True True b (files w) = Inr (files w1)"
      by (auto split: sum.splits)
    have d: "files w1 b = Some Dir" by (rule path_mkdir_post [OF s])
    from assms m None consider "(p, fs) = (b, files w1)" | "(p, fs) \<in> set (invocations b T w1)"
      by (auto simp: helper_calls_def)
    then show ?thesis
    proof cases
      case 1
      with d show ?thesis by simp
    next
      case 2
      with invocations_dirs [OF d] show ?thesis by simp
    qed
  qed
qed

lemma create_structure_not_missing:
  "fst (create_structure b T w) \<noteq> Some FileNotFoundError"
proof -
  from create_structure_cases [of b w T] consider
    e w1 where "mkdir_parents_exist_ok b w = (Some e, w1)" "create_structure b T w = (Some e, w1)"
  | e w1 w2 where "mkdir_parents_exist_ok b w = (None, w1)"
      "create_files_and_dirs b T w1 = (Some e, w2)" "create_structure b T w = (Some e, w2)"
  | w2 where "create_structure b T w = print (completion_message b) w2"
    by blast
  then show ?thesis
  proof cases
    case 1
    with mkdir_parents_result [OF 1(1)] path_mkdir_not_missing [of True b "files w" True]
    show ?thesis by (auto split: sum.splits)
  next
    case 2
    from mkdir_parents_result [OF 2(1)] have s: "path_mkdir True True b (files w) = Inr (files w1)"
      by (auto split: sum.splits)
    have "files w1 b = Some Dir" by (rule path_mkdir_post [OF s])
    from exec_not_missing [of "files w1" b T] this 2 cfd_fst [of b T w1] show ?thesis by simp
  next
    case 3
    then show ?thesis by (simp add: print_ok)
  qed
qed

lemma structures_well_formed:
  "distinct_keys admin_structure \<and> valid_names admin_structure \<and>
   distinct_keys web_structure \<and> valid_names web_structure"
  by code_simp

lemma no_collision_fresh:
  "(\<And>q. q \<in> set (tree_paths P T) \<Longrightarrow> fs q = None) \<Longrightarrow> no_collision fs P T"
  by (induction P T rule: tree_paths.induct) (auto simp: is_dir_def is_file_def)

lemma create_structure_materialized:
  assumes "distinct_keys T" and "fst (create_structure b T w) = None"
  shows "materialized (files (snd (create_structure b T w))) b T"
proof -
  from create_structure_cases [of b w T] assms(2) obtain w1 w2 where
    c: "create_files_and_dirs b T w1 = (None, w2)" and
    r: "create_structure b T w = print (completion_message b) w2"
    by auto
  from cfd_materialized [OF assms(1), of b w1] c have "materialized (files w2) b T" by simp
  with r show ?thesis by (simp add: print_def log_event_def)
qed

lemma fresh_directory_run:
  assumes "distinct_keys T" and "fst (mkdir_parents_exist_ok b (world_of [([], Dir)])) = None"
  shows "fst (create_structure b T (world_of [([], Dir)])) = None \<and>
         materialized (files (snd (create_structure b T (world_of [([], Dir)])))) b T"
proof -
  have "no_collision (files (world_of [([], Dir)])) b T"
  proof (rule no_collision_fresh)
    fix q assume "q \<in> set (tree_paths b T)"
    then have "q \<noteq> []" by (auto dest: tree_paths_below)
    then show "files (world_of [([], Dir)]) q = None" by (simp add: world_of_def)
  qed
  with create_structure_ok_iff [OF assms(1), of b "world_of [([], Dir)]"] assms(2)
  have "fst (create_structure b T (world_of [([], Dir)])) = None" by simp
  with create_structure_materialized [OF assms(1)] show ?thesis by simp
qed

lemma invocations_paths:
  "fst (create_files_and_dirs P T w) = None \<Longrightarrow> map fst (invocations P T w) = dir_paths P T"
proof (induction P T w rule: invocations.induct)
  case (1 parent_path w)
  then show ?case by simp
next
  case (2 parent_path name d items w)
  let ?p = "parent_path @ [name]"
  obtain r w1 where m: "mkdir_exist_ok ?p w = (r, w1)" by force
  obtain r2 w2 where c: "create_files_and_dirs ?p d w1 = (r2, w2)" by force
  from "2.prems" m have r: "r = None" by (cases r) (simp_all add: Let_def)
  from "2.prems" m r c have r2: "r2 = None" by (cases r2) (simp_all add: Let_def)
  from "2.prems" m r c r2 have ok: "fst (create_files_and_dirs parent_path items w2) = None"
    by (simp add: Let_def)
  have 1: "map fst (invocations ?p d w1) = dir_paths ?p d"
    using "2.IH"(1) [OF refl m [symmetric] r] c r2 by simp
  have 2: "map fst (invocations parent_path items w2) = dir_paths parent_path items"
    using "2.IH"(2) [OF refl m [symmetric] r c [symmetric] r2 ok] .
  from m r c r2 1 2 show ?case by (simp add: Let_def)
next
  case (3 parent_path name s items w)
  let ?p = "parent_path @ [name]"
  obtain r w1 where m: "write_file ?p s w = (r, w1)" by force
  from "3.prems" m have r: "r = None" by (cases r) (simp_all add: Let_def)
  from "3.prems" m r have ok: "fst (create_files_and_dirs parent_path items w1) = None"
    by (simp add: Let_def)
  from "3.IH" [OF refl m [symmetric] r ok] m r show ?case by (simp add: Let_def)
qed

lemma helper_calls_paths:
  assumes "fst (create_structure b T w) = None"
  shows "map fst (helper_calls b T w) = b # dir_paths b T"
proof -
  from create_structure_cases [of b w T] assms obtain w1 w2 where
    m: "mkdir_parents_exist_ok b w = (None, w1)" and
    c: "create_files_and_dirs b T w1 = (None, w2)"
    by auto
  from c invocations_paths [of b T w1] m show ?thesis by (simp add: helper_calls_def)
qed

lemma wf_fs_mkdir:
  assumes "wf_fs fs" and "fs (parent p) = Some Dir"
  shows "wf_fs (fs(p \<mapsto> Dir))"
  unfolding wf_fs_def
proof (intro conjI allI impI)
  show "(fs(p \<mapsto> Dir)) [] = Some Dir" using assms(1) by (simp add: wf_fs_def)
next
  fix q assume q: "q \<noteq> [] \<and> (fs(p \<mapsto> Dir)) q \<noteq> None"
  show "(fs(p \<mapsto> Dir)) (parent q) = Some Dir"
  proof (cases "q = p")
    case True
    with assms(2) show ?thesis by simp
  next
    case False
    with q assms(1) have "fs (parent q) = Some Dir" by (simp add: wf_fs_def)
    then show ?thesis by simp
  qed
qed

lemma os_mkdir_wf: "wf_fs fs \<Longrightarrow> os_mkdir p fs = Inr fs' \<Longrightarrow> wf_fs fs'"
  by (auto simp: os_mkdir_def wf_fs_mkdir split: if_splits option.splits entry.splits)

lemma path_mkdir_wf: "wf_fs fs \<Longrightarrow> path_mkdir a b p fs = Inr fs' \<Longrightarrow> wf_fs fs'"
proof (induction a b p fs arbitrary: fs' rule: path_mkdir.induct)
  case (1 parents exist_ok p fs)
  show ?case
  proof (cases "os_mkdir p fs")
    case (Inr fs1)
    with "1.prems" show ?thesis
      by (simp add: path_mkdir.simps [of parents exist_ok p fs] os_mkdir_wf)
  next
    case (Inl e)
    show ?thesis
    proof (cases "e = FileNotFoundError")
      case False
      with Inl "1.prems" show ?thesis
        by (simp add: path_mkdir.simps [of parents exist_ok p fs] split: if_splits)
    next
      case True
      with Inl "1.prems" have np: "\<not> (\<not> parents \<or> parent p = p)"
        by (simp add: path_mkdir.simps [of parents exist_ok p fs] split: if_splits)
      from True Inl "1.prems" np obtain fs1 where
        a: "path_mkdir True True (parent p) fs = Inr fs1" and
        b: "path_mkdir False exist_ok p fs1 = Inr fs'"
        by (simp add: path_mkdir.simps [of parents exist_ok p fs] split: if_splits sum.splits)
      from "1.IH"(1) [OF Inl True np "1.prems"(1) a] have "wf_fs fs1" .
      from "1.IH"(2) [OF Inl True np a this b] show ?thesis .
    qed
  qed
qed

lemma fs_step_wf: "wf_fs fs \<Longrightarrow> fs_step ev fs = Inr fs' \<Longrightarrow> wf_fs fs'"
proof (cases ev)
  case (WriteFile p s)
  assume w: "wf_fs fs" and s: "fs_step ev fs = Inr fs'"
  with WriteFile have s': "fs_step (WriteFile p s) fs = Inr fs'" by simp
  have fs': "fs' = fs(p \<mapsto> File s)" by (rule write_success [OF s'])
  from s' have par: "fs (parent p) = Some Dir" and nd: "fs p \<noteq> Some Dir" and ne: "p \<noteq> []"
    by (auto simp: open_w_def split: if_splits option.splits entry.splits sum.splits)
  show ?thesis unfolding wf_fs_def fs'
  proof (intro conjI allI impI)
    show "(fs(p \<mapsto> File s)) [] = Some Dir" using w ne by (simp add: wf_fs_def)
  next
    fix q assume q: "q \<noteq> [] \<and> (fs(p \<mapsto> File s)) q \<noteq> None"
    show "(fs(p \<mapsto> File s)) (parent q) = Some Dir"
    proof (cases "q = p")
      case True
      with par parent_neq [OF ne] show ?thesis by simp
    next
      case False
      with q w have "fs (parent q) = Some Dir" by (simp add: wf_fs_def)
      with nd show ?thesis by auto
    qed
  qed
qed (auto dest: path_mkdir_wf)

lemma exec_wf: "wf_fs fs \<Longrightarrow> wf_fs (snd (exec evs fs))"
  by (induction evs arbitrary: fs) (auto split: sum.splits dest: fs_step_wf)

lemma create_structure_wf:
  "wf_fs (files w) \<Longrightarrow> wf_fs (files (snd (create_structure b T w)))"
  using run_exec [of "MkdirParents b # visit_order b T @ [Print (completion_message b)]" w]
    exec_wf [of "files w" "MkdirParents b # visit_order b T @ [Print (completion_message b)]"]
  by (simp only: create_structure_run)

lemma exec_stable:
  "list_all entry_event evs \<Longrightarrow> distinct (map ev_path evs) \<Longrightarrow>
   fst (exec evs fs) = None \<Longrightarrow> ev \<in> set evs \<Longrightarrow>
   fs_step ev (snd (exec evs fs)) = Inr (snd (exec evs fs))"
proof (induction evs arbitrary: fs)
  case Nil
  then show ?case by simp
next
  case (Cons a evs)
  from Cons.prems(3) obtain fs1 where s: "fs_step a fs = Inr fs1"
    and ex: "exec (a # evs) fs = exec evs fs1"
    by (auto split: sum.splits)
  let ?fs2 = "snd (exec evs fs1)"
  show ?case
  proof (cases "ev \<in> set evs")
    case True
    with Cons.IH [of fs1] Cons.prems ex show ?thesis by simp
  next
    case False
    with Cons.prems(4) have [simp]: "ev = a" by simp
    have ee: "entry_event a" using Cons.prems(1) by simp
    have "ev_path a \<notin> \<Union> (touched ` set evs)"
      using Cons.prems by (auto simp: list_all_iff entry_event_touched)
    then have same: "?fs2 (ev_path a) = fs1 (ev_path a)" by (rule exec_frame)
    have "fs_step a ?fs2 = Inr ?fs2"
      by (rule step_stable [where ?fs2.0 = "?fs2", OF ee s same]) (simp_all add: exec_dir exec_file)
    with ex show ?thesis by simp
  qed
qed

lemma cfd_second_run:
  assumes "distinct_keys T" and "fst (create_files_and_dirs P T w) = None"
    and "ev \<in> set (visit_order P T)"
  shows "fs_step ev (files (snd (create_files_and_dirs P T w))) =
           Inr (files (snd (create_files_and_dirs P T w))) \<and>
         achieved (files (snd (create_files_and_dirs P T w))) ev"
proof -
  have e: "list_all entry_event (visit_order P T)" "distinct (map ev_path (visit_order P T))"
    by (simp_all add: visit_order_entry_events visit_order_paths distinct_tree_paths assms(1))
  have ok: "fst (exec (visit_order P T) (files w)) = None" using assms(2) by (simp add: cfd_fst)
  from exec_stable [OF e ok assms(3)] exec_achieved [OF e ok assms(3)]
  show ?thesis by (simp add: cfd_files)
qed


lemma cfd_redone:
  assumes "distinct_keys T" and "fst (create_files_and_dirs P T w) = None"
    and "ev \<in> set (visit_order P T)"
  shows "redone (files (snd (create_files_and_dirs P T w))) ev"
proof (cases ev)
  case (Mkdir p)
  with cfd_second_run [OF assms] show ?thesis by simp
next
  case (WriteFile p s)
  with cfd_second_run [OF assms] show ?thesis by (simp del: fs_step.simps)
qed simp_all

lemma disk_exec_append:
  "disk_exec (xs @ ys) d =
     (case disk_exec xs d of (Some e, d') \<Rightarrow> (Some e, d') | (None, d') \<Rightarrow> disk_exec ys d')"
  by (induction xs arbitrary: d) (auto split: sum.splits)

lemma disk_cfd_exec:
  "disk_create_files_and_dirs P T d = disk_exec (visit_order P T) d"
proof (induction P T d rule: disk_create_files_and_dirs.induct)
  case (1 parent_path d)
  then show ?case by simp
next
  case (2 parent_path name c items d)
  let ?p = "parent_path @ [name]"
  show ?case
  proof (cases "disk_mkdir ?p d")
    case (Inl e)
    then show ?thesis by simp
  next
    case (Inr d1)
    obtain r2 d2 where c: "disk_create_files_and_dirs ?p c d1 = (r2, d2)" by force
    have ih1: "disk_exec (visit_order ?p c) d1 = (r2, d2)"
      using "2.IH"(1) [OF refl Inr] c by simp
    show ?thesis
    proof (cases r2)
      case (Some e)
      with Inr c ih1 show ?thesis by (simp add: disk_exec_append)
    next
      case None
      have "disk_create_files_and_dirs parent_path items d2 =
              disk_exec (visit_order parent_path items) d2"
        using "2.IH"(2) [OF refl Inr c [symmetric] None] .
      with Inr c ih1 None show ?thesis by (simp add: disk_exec_append)
    qed
  qed
next
  case (3 parent_path name s items d)
  let ?p = "parent_path @ [name]"
  show ?case
  proof (cases "disk_write_file ?p s d")
    case (Inl e)
    then show ?thesis by simp
  next
    case (Inr d1)
    with "3.IH" [OF refl Inr] show ?thesis by simp
  qed
qed

lemma fresh_inode_above:
  "map_of es p = Some (FileEnt i) \<Longrightarrow> i < fresh_inode es"
proof (induction es rule: fresh_inode.induct)
  case 1
  then show ?case by simp
next
  case (2 p' es)
  then show ?case by (auto split: if_splits)
next
  case (3 p' j es)
  then show ?case by (auto split: if_splits)
qed

lemma disk_mkdir_effect:
  assumes "disk_mkdir p d = Inr d'"
  shows "inodes d' = inodes d \<and>
         (\<forall>r. r \<noteq> p \<longrightarrow> dirent_at d' r = dirent_at d r) \<and>
         dirent_at d' p = Some DirEnt"
proof -
  from assms obtain fs' where s: "path_mkdir False True p (view d) = Inr fs'"
    by (auto simp: disk_mkdir_def split: sum.splits)
  from mkdir_success [OF s] have "fs' p = Some Dir" by simp
  have ex: "dirent_at d p \<noteq> None \<Longrightarrow> dirent_at d p = Some DirEnt"
  proof -
    assume "dirent_at d p \<noteq> None"
    then have "view d p \<noteq> None" by (auto simp: view_def split: option.splits dirent.splits)
    with s have "view d p = Some Dir"
      by (auto simp: path_mkdir_noparents os_mkdir_def is_dir_def
               split: sum.splits if_splits option.splits entry.splits)
    then show ?thesis by (auto simp: view_def split: option.splits dirent.splits)
  qed
  from assms s ex show ?thesis
    by (auto simp: disk_mkdir_def dirent_at_def split: if_splits)
qed

lemma disk_write_file_effect:
  assumes "disk_write_file p s d = Inr d'"
  shows "(\<forall>r. r \<noteq> p \<longrightarrow> dirent_at d' r = dirent_at d r) \<and>
         (\<exists>j. dirent_at d' p = Some (FileEnt j) \<and>
              (dirent_at d p = Some (FileEnt j) \<or>
               (\<forall>r i. dirent_at d r = Some (FileEnt i) \<longrightarrow> i < j)) \<and>
              file_data d' j = s \<and>
              (\<forall>i. i \<noteq> j \<longrightarrow> file_data d' i = file_data d i))"
proof -
  from assms obtain d1 where o: "disk_open_w p d = Inr d1" and w: "d' = disk_f_write p s d1"
    by (auto simp: disk_write_file_def split: sum.splits)
  show ?thesis
  proof (cases "dirent_at d p")
    case (Some e)
    show ?thesis
    proof (cases e)
      case DirEnt
      with Some have "view d p = Some Dir" by (simp add: view_def)
      with o have False
        by (auto simp: disk_open_w_def open_w_def split: sum.splits if_splits option.splits entry.splits)
      then show ?thesis ..
    next
      case (FileEnt j)
      with Some o have d1: "d1 = d\<lparr>inodes := (j, []) # inodes d\<rparr>"
        by (auto simp: disk_open_w_def split: sum.splits)
      with Some FileEnt w show ?thesis
        by (auto simp: disk_f_write_def dirent_at_def file_data_def)
    qed
  next
    case None
    let ?j = "fresh_inode (dirents d)"
    from None o have d1: "d1 = d\<lparr>dirents := (p, FileEnt ?j) # dirents d, inodes := (?j, []) # inodes d\<rparr>"
      by (auto simp: disk_open_w_def split: sum.splits)
    have "\<forall>r i. dirent_at d r = Some (FileEnt i) \<longrightarrow> i < ?j"
      by (auto simp: dirent_at_def dest: fresh_inode_above)
    with None d1 w show ?thesis
      by (auto simp: disk_f_write_def dirent_at_def file_data_def)
  qed
qed

lemma kept_view: "kept d0 q d \<Longrightarrow> view d q = view d0 q"
  by (auto simp: kept_def view_def split: option.splits dirent.splits)

lemma same_file_cong:
  "dirent_at d' p = dirent_at d p \<Longrightarrow> dirent_at d' q = dirent_at d q \<Longrightarrow>
   same_file d' p q = same_file d p q"
  by (simp add: same_file_def split: option.splits dirent.splits)

lemma disk_step_kept:
  assumes "entry_event ev" and "disk_step ev d = Inr d'"
    and "ev_path ev \<in> S" and "q \<notin> S"
    and "kept d0 q d" and "\<forall>p \<in> S. \<not> same_file d p q"
  shows "kept d0 q d' \<and> (\<forall>p \<in> S. \<not> same_file d' p q)"
proof (cases ev)
  case (Mkdir p)
  with assms(2) have m: "disk_mkdir p d = Inr d'" by simp
  from Mkdir assms(3,4) have pq: "q \<noteq> p" by auto
  note e = disk_mkdir_effect [OF m]
  from e pq assms(5) have 1: "kept d0 q d'" by (simp add: kept_def file_data_def)
  have 2: "\<not> same_file d' r q" if "r \<in> S" for r
  proof (cases "r = p")
    case True
    with e show ?thesis by (simp add: same_file_def)
  next
    case False
    with e pq have "same_file d' r q = same_file d r q" by (intro same_file_cong) simp_all
    with assms(6) that show ?thesis by simp
  qed
  from 1 2 show ?thesis by blast
next
  case (WriteFile p s)
  with assms(2) have m: "disk_write_file p s d = Inr d'" by simp
  from WriteFile assms(3,4) have pq: "q \<noteq> p" and pS: "p \<in> S" by auto
  from disk_write_file_effect [OF m] obtain j where
    o: "\<forall>r. r \<noteq> p \<longrightarrow> dirent_at d' r = dirent_at d r" and
    j: "dirent_at d' p = Some (FileEnt j)" and
    jj: "dirent_at d p = Some (FileEnt j) \<or> (\<forall>r i. dirent_at d r = Some (FileEnt i) \<longrightarrow> i < j)" and
    dd: "\<forall>i. i \<noteq> j \<longrightarrow> file_data d' i = file_data d i"
    by blast
  have nj: "dirent_at d q \<noteq> Some (FileEnt j)"
  proof
    assume q: "dirent_at d q = Some (FileEnt j)"
    from jj show False
    proof
      assume "dirent_at d p = Some (FileEnt j)"
      with q have "same_file d p q" by (simp add: same_file_def)
      with assms(6) pS show False by blast
    next
      assume "\<forall>r i. dirent_at d r = Some (FileEnt i) \<longrightarrow> i < j"
      with q show False by blast
    qed
  qed
  have 1: "kept d0 q d'"
    unfolding kept_def
  proof (intro conjI allI impI)
    show "dirent_at d' q = dirent_at d0 q" using o pq assms(5) by (simp add: kept_def)
  next
    fix i assume i: "dirent_at d0 q = Some (FileEnt i)"
    with assms(5) have "dirent_at d q = Some (FileEnt i)" "file_data d i = file_data d0 i"
      by (simp_all add: kept_def)
    with nj dd show "file_data d' i = file_data d0 i" by auto
  qed
  have 2: "\<not> same_file d' r q" if "r \<in> S" for r
  proof (cases "r = p")
    case True
    with j o pq nj show ?thesis by (simp add: same_file_def)
  next
    case False
    with o pq have "same_file d' r q = same_file d r q" by (intro same_file_cong) simp_all
    with assms(6) that show ?thesis by simp
  qed
  from 1 2 show ?thesis by blast
qed (use assms(1) in auto)

lemma disk_exec_kept:
  assumes "list_all entry_event evs" and "ev_path ` set evs \<subseteq> S" and "q \<notin> S"
    and "kept d0 q d" and "\<forall>p \<in> S. \<not> same_file d p q"
  shows "kept d0 q (snd (disk_exec evs d))"
  using assms
proof (induction evs arbitrary: d)
  case Nil
  then show ?case by simp
next
  case (Cons ev evs)
  show ?case
  proof (cases "disk_step ev d")
    case (Inl e)
    with Cons.prems show ?thesis by simp
  next
    case (Inr d')
    from Cons.prems have ee: "entry_event ev" and pS: "ev_path ev \<in> S" by simp_all
    from disk_step_kept [OF ee Inr pS Cons.prems(3) Cons.prems(4) Cons.prems(5)]
    have "kept d0 q d'" "\<forall>p \<in> S. \<not> same_file d' p q" by simp_all
    with Cons.IH [of d'] Cons.prems Inr show ?thesis by simp
  qed
qed

lemma kept_refl: "kept d q d"
  by (simp add: kept_def)

lemma disk_cfd_frame:
  assumes "q \<notin> set (tree_paths P T)" and "\<forall>p \<in> set (tree_paths P T). \<not> same_file d p q"
  shows "view (snd (disk_create_files_and_dirs P T d)) q = view d q"
proof -
  have "kept d q (snd (disk_exec (visit_order P T) d))"
  proof (rule disk_exec_kept [where S = "set (tree_paths P T)"])
    show "list_all entry_event (visit_order P T)" by (rule visit_order_entry_events)
    show "ev_path ` set (visit_order P T) \<subseteq> set (tree_paths P T)"
      using visit_order_paths [of P T] by (metis set_map subset_refl)
  qed (use assms kept_refl in auto)
  then show ?thesis by (simp add: disk_cfd_exec kept_view)
qed

lemma view_mkdir:
  assumes "disk_mkdir p d = Inr d'"
  shows "view d' = (view d)(p \<mapsto> Dir)"
proof
  fix r
  note e = disk_mkdir_effect [OF assms]
  show "view d' r = ((view d)(p \<mapsto> Dir)) r"
    using e by (cases "r = p") (auto simp: view_def file_data_def split: option.splits dirent.splits)
qed

lemma link_free_mkdir:
  assumes "disk_mkdir p d = Inr d'" and "link_free d"
  shows "link_free d'"
  unfolding link_free_def
proof (intro allI impI)
  fix a b i assume h: "dirent_at d' a = Some (FileEnt i) \<and> dirent_at d' b = Some (FileEnt i)"
  note e = disk_mkdir_effect [OF assms(1)]
  from h e have "a \<noteq> p" "b \<noteq> p" by auto
  with h e have "dirent_at d a = Some (FileEnt i) \<and> dirent_at d b = Some (FileEnt i)" by simp
  with assms(2) show "a = b" unfolding link_free_def by blast
qed

lemma view_write_file:
  assumes "disk_write_file p s d = Inr d'" and "link_free d"
  shows "view d' = (view d)(p \<mapsto> File s) \<and> link_free d'"
proof -
  from disk_write_file_effect [OF assms(1)] obtain j where
    o: "\<forall>r. r \<noteq> p \<longrightarrow> dirent_at d' r = dirent_at d r" and
    j: "dirent_at d' p = Some (FileEnt j)" and
    jj: "dirent_at d p = Some (FileEnt j) \<or> (\<forall>r i. dirent_at d r = Some (FileEnt i) \<longrightarrow> i < j)" and
    js: "file_data d' j = s" and
    dd: "\<forall>i. i \<noteq> j \<longrightarrow> file_data d' i = file_data d i"
    by blast
  have other: "dirent_at d r \<noteq> Some (FileEnt j)" if "r \<noteq> p" for r
  proof
    assume r: "dirent_at d r = Some (FileEnt j)"
    from jj show False
    proof
      assume "dirent_at d p = Some (FileEnt j)"
      with r assms(2) that show False unfolding link_free_def by blast
    next
      assume "\<forall>r i. dirent_at d r = Some (FileEnt i) \<longrightarrow> i < j"
      with r show False by blast
    qed
  qed
  have v: "view d' = (view d)(p \<mapsto> File s)"
  proof
    fix r
    show "view d' r = ((view d)(p \<mapsto> File s)) r"
    proof (cases "r = p")
      case True
      with j js show ?thesis by (simp add: view_def)
    next
      case False
      with o have "dirent_at d' r = dirent_at d r" by simp
      with other [OF False] dd False show ?thesis
        by (auto simp: view_def split: option.splits dirent.splits)
    qed
  qed
  have l: "link_free d'"
    unfolding link_free_def
  proof (intro allI impI)
    fix a b i assume h: "dirent_at d' a = Some (FileEnt i) \<and> dirent_at d' b = Some (FileEnt i)"
    show "a = b"
    proof (cases "a = p")
      case True
      with h j have i: "i = j" by simp
      show ?thesis
      proof (rule ccontr)
        assume "a \<noteq> b"
        with True have "b \<noteq> p" by simp
        with o h i other [of b] show False by simp
      qed
    next
      case False
      show ?thesis
      proof (cases "b = p")
        case True
        with h j have "i = j" by simp
        with o h False other [of a] show ?thesis by simp
      next
        case bp: False
        with False o h have "dirent_at d a = Some (FileEnt i) \<and> dirent_at d b = Some (FileEnt i)"
          by simp
        with assms(2) show ?thesis unfolding link_free_def by blast
      qed
    qed
  qed
  from v l show ?thesis ..
qed

lemma disk_step_view:
  assumes "entry_event ev" and "link_free d"
  shows "case disk_step ev d of
           Inl e \<Rightarrow> fs_step ev (view d) = Inl e
         | Inr d' \<Rightarrow> fs_step ev (view d) = Inr (view d') \<and> link_free d'"
proof (cases ev)
  case (Mkdir p)
  show ?thesis
  proof (cases "disk_mkdir p d")
    case (Inl e)
    with Mkdir show ?thesis by (auto simp: disk_mkdir_def split: sum.splits)
  next
    case (Inr d')
    then obtain fs' where s: "path_mkdir False True p (view d) = Inr fs'"
      by (auto simp: disk_mkdir_def split: sum.splits)
    with mkdir_success [OF s] view_mkdir [OF Inr] link_free_mkdir [OF Inr assms(2)] Inr Mkdir
    show ?thesis by simp
  qed
next
  case (WriteFile p s)
  show ?thesis
  proof (cases "disk_write_file p s d")
    case (Inl e)
    then have "open_w p (view d) = Inl e"
      by (auto simp: disk_write_file_def disk_open_w_def split: sum.splits option.splits dirent.splits)
    with Inl WriteFile show ?thesis by simp
  next
    case (Inr d')
    then obtain fs' where "open_w p (view d) = Inr fs'"
      by (auto simp: disk_write_file_def disk_open_w_def split: sum.splits)
    then obtain fs'' where f: "fs_step (WriteFile p s) (view d) = Inr fs''" by simp
    from write_success [OF f] f view_write_file [OF Inr assms(2)] Inr WriteFile
    show ?thesis by (simp del: fs_step.simps)
  qed
qed (use assms(1) in auto)

lemma disk_exec_view:
  "list_all entry_event evs \<Longrightarrow> link_free d \<Longrightarrow>
   fst (disk_exec evs d) = fst (exec evs (view d)) \<and>
   view (snd (disk_exec evs d)) = snd (exec evs (view d))"
proof (induction evs arbitrary: d)
  case Nil
  then show ?case by simp
next
  case (Cons ev evs)
  from Cons.prems have ee: "entry_event ev" by simp
  note s = disk_step_view [OF ee Cons.prems(2)]
  show ?case
  proof (cases "disk_step ev d")
    case (Inl e)
    with s show ?thesis by simp
  next
    case (Inr d')
    with s have "fs_step ev (view d) = Inr (view d')" "link_free d'" by simp_all
    with Cons.IH [of d'] Cons.prems Inr show ?thesis by simp
  qed
qed

lemma link_free_agree:
  assumes "link_free d" and "files w = view d"
  shows "fst (disk_create_files_and_dirs P T d) = fst (create_files_and_dirs P T w) \<and>
         view (snd (disk_create_files_and_dirs P T d)) = files (snd (create_files_and_dirs P T w))"
  using disk_exec_view [OF visit_order_entry_events assms(1), of P T] assms(2)
  by (simp add: disk_cfd_exec cfd_fst cfd_files)

section \<open>The claims\<close>

subsection \<open>C1\<close>




subsection \<open>C2\<close>

text \<open>
  C2. Idempotence: for every tree and every base path, running the materializer again on
  the state that a first run has left ends with the same result and the same filesystem as
  the first run. The second run is again the walk of the tree, carried out statement by
  statement. After a first run that raised nothing it reaches every statement of the walk;
  the \<^verbatim>\<open>mkdir\<close> of each directory of the tree, already there, is no error and changes
  nothing, and the \<^verbatim>\<open>open\<close> and \<^verbatim>\<open>write\<close> of each file of the tree raise nothing and leave
  the file with the content that the tree gives for it.
\<close>

theorem materialize_twice:
  assumes "distinct_keys T"
  shows "fst (create_files_and_dirs P T (snd (create_files_and_dirs P T w))) =
           fst (create_files_and_dirs P T w) \<and>
         files (snd (create_files_and_dirs P T (snd (create_files_and_dirs P T w)))) =
           files (snd (create_files_and_dirs P T w)) \<and>
         create_files_and_dirs P T (snd (create_files_and_dirs P T w)) =
           run (visit_order P T) (snd (create_files_and_dirs P T w)) \<and>
         (fst (create_files_and_dirs P T w) = None \<longrightarrow>
            trace (snd (create_files_and_dirs P T (snd (create_files_and_dirs P T w)))) =
              trace (snd (create_files_and_dirs P T w)) @ visit_order P T \<and>
            (\<forall>ev \<in> set (visit_order P T).
               redone (files (snd (create_files_and_dirs P T w))) ev))"
proof (intro conjI impI ballI)
  let ?w1 = "snd (create_files_and_dirs P T w)"
  show r: "fst (create_files_and_dirs P T ?w1) = fst (create_files_and_dirs P T w)"
    by (simp add: cfd_fst cfd_files cfd_idem [OF assms])
  show "files (snd (create_files_and_dirs P T ?w1)) = files ?w1"
    by (simp add: cfd_files cfd_idem [OF assms])
  show "create_files_and_dirs P T ?w1 = run (visit_order P T) ?w1" by (rule cfd_run)
  show "trace (snd (create_files_and_dirs P T ?w1)) = trace ?w1 @ visit_order P T"
    if "fst (create_files_and_dirs P T w) = None"
    using that r cfd_trace [of P T ?w1] cfd_trace_success [of P T ?w1] by simp
  show "redone (files ?w1) ev"
    if "fst (create_files_and_dirs P T w) = None" and "ev \<in> set (visit_order P T)" for ev
    using assms that by (rule cfd_redone)
qed

theorem materialize_twice_witness:
  "distinct_keys example_tree \<and>
   fst (create_files_and_dirs [''P''] example_tree
     (world_of [([], Dir), ([''P''], Dir), ([''P'', ''a.txt''], File ''old'')])) = None \<and>
   fst (create_files_and_dirs [''P''] example_tree
     (snd (create_files_and_dirs [''P''] example_tree
        (world_of [([], Dir), ([''P''], Dir), ([''P'', ''a.txt''], File ''old'')])))) = None \<and>
   files (snd (create_files_and_dirs [''P''] example_tree
     (snd (create_files_and_dirs [''P''] example_tree
        (world_of [([], Dir), ([''P''], Dir), ([''P'', ''a.txt''], File ''old'')]))))) =
   files (snd (create_files_and_dirs [''P''] example_tree
        (world_of [([], Dir), ([''P''], Dir), ([''P'', ''a.txt''], File ''old'')]))) \<and>
   trace (snd (create_files_and_dirs [''P''] example_tree
     (snd (create_files_and_dirs [''P''] example_tree
        (world_of [([], Dir), ([''P''], Dir), ([''P'', ''a.txt''], File ''old'')]))))) =
     [WriteFile [''P'', ''a.txt''] ''hi'', Mkdir [''P'', ''b''],
      WriteFile [''P'', ''b'', ''c.txt''] [],
      WriteFile [''P'', ''a.txt''] ''hi'', Mkdir [''P'', ''b''],
      WriteFile [''P'', ''b'', ''c.txt''] []] \<and>
   files (snd (create_files_and_dirs [''P''] example_tree
        (world_of [([], Dir), ([''P''], Dir), ([''P'', ''a.txt''], File ''old'')])))
     [''P'', ''a.txt''] = Some (File ''hi'') \<and>
   list_all
     (redone (files (snd (create_files_and_dirs [''P''] example_tree
        (world_of [([], Dir), ([''P''], Dir), ([''P'', ''a.txt''], File ''old'')])))))
     (visit_order [''P''] example_tree)"
proof -
  let ?w = "world_of [([], Dir), ([''P''], Dir), ([''P'', ''a.txt''], File ''old'')]"
  let ?w1 = "snd (create_files_and_dirs [''P''] example_tree ?w)"
  have d: "distinct_keys example_tree" by code_simp
  have ok: "fst (create_files_and_dirs [''P''] example_tree ?w) = None" by code_simp
  have c: "files ?w1 [''P'', ''a.txt''] = Some (File ''hi'')" by code_simp
  have t: "trace ?w1 @ visit_order [''P''] example_tree =
     [WriteFile [''P'', ''a.txt''] ''hi'', Mkdir [''P'', ''b''],
      WriteFile [''P'', ''b'', ''c.txt''] [],
      WriteFile [''P'', ''a.txt''] ''hi'', Mkdir [''P'', ''b''],
      WriteFile [''P'', ''b'', ''c.txt''] []]"
    by code_simp
  note m = materialize_twice [OF d, of "[''P'']" ?w]
  from m [THEN conjunct1] ok
  have a: "fst (create_files_and_dirs [''P''] example_tree ?w1) = None" by simp
  from m [THEN conjunct2, THEN conjunct1]
  have b: "files (snd (create_files_and_dirs [''P''] example_tree ?w1)) = files ?w1" .
  from m [THEN conjunct2, THEN conjunct2, THEN conjunct2, rule_format, OF ok, THEN conjunct1] t
  have e: "trace (snd (create_files_and_dirs [''P''] example_tree ?w1)) =
     [WriteFile [''P'', ''a.txt''] ''hi'', Mkdir [''P'', ''b''],
      WriteFile [''P'', ''b'', ''c.txt''] [],
      WriteFile [''P'', ''a.txt''] ''hi'', Mkdir [''P'', ''b''],
      WriteFile [''P'', ''b'', ''c.txt''] []]"
    by simp
  from m [THEN conjunct2, THEN conjunct2, THEN conjunct2, rule_format, OF ok, THEN conjunct2]
  have f: "list_all (redone (files ?w1)) (visit_order [''P''] example_tree)"
    by (simp add: list_all_iff)
  from d ok a b c e f show ?thesis by simp
qed

subsection \<open>C3\<close>

text \<open>
  C3 as stated fails: with \<^verbatim>\<open>P/keep.txt\<close> a hard link to the file \<^verbatim>\<open>P/a.txt\<close>, which holds
  \<^verbatim>\<open>old\<close>, the run on the tree \<^verbatim>\<open>{"a.txt": "hi", "b": {"c.txt": ""}}\<close> raises nothing, no key
  of the tree names \<^verbatim>\<open>P/keep.txt\<close>, and \<^verbatim>\<open>P/keep.txt\<close> holds \<^verbatim>\<open>hi\<close> afterwards.
\<close>

theorem hard_link_counterexample:
  "[''P'', ''keep.txt''] \<notin> set (tree_paths [''P''] example_tree) \<and>
   view \<lparr>dirents = [([], DirEnt), ([''P''], DirEnt), ([''P'', ''a.txt''], FileEnt 0),
                    ([''P'', ''keep.txt''], FileEnt 0)],
         inodes = [(0, ''old'')]\<rparr> [''P'', ''keep.txt''] = Some (File ''old'') \<and>
   fst (disk_create_files_and_dirs [''P''] example_tree
         \<lparr>dirents = [([], DirEnt), ([''P''], DirEnt), ([''P'', ''a.txt''], FileEnt 0),
                    ([''P'', ''keep.txt''], FileEnt 0)],
          inodes = [(0, ''old'')]\<rparr>) = None \<and>
   view (snd (disk_create_files_and_dirs [''P''] example_tree
         \<lparr>dirents = [([], DirEnt), ([''P''], DirEnt), ([''P'', ''a.txt''], FileEnt 0),
                    ([''P'', ''keep.txt''], FileEnt 0)],
          inodes = [(0, ''old'')]\<rparr>)) [''P'', ''keep.txt''] = Some (File ''hi'')"
  by code_simp

text \<open>
  C3, amended. Frame property, on a filesystem without symbolic links and for a tree whose
  names are single path components: an entry whose path no key of the tree names under \<open>P\<close>,
  and which is not a hard link to a regular file at a path that a key names, is the same
  after the run as before it, entry and contents, also when the run raises.
\<close>

theorem unrelated_entries_unchanged:
  assumes "valid_names T" and "q \<notin> set (tree_paths P T)"
    and "\<forall>p \<in> set (tree_paths P T). \<not> same_file d p q"
  shows "view (snd (disk_create_files_and_dirs P T d)) q = view d q"
  using assms(2,3) by (rule disk_cfd_frame)

theorem unrelated_entries_unchanged_witness:
  "valid_names example_tree \<and>
   [''P'', ''notes.md''] \<notin> set (tree_paths [''P''] example_tree) \<and>
   list_all (\<lambda>p. \<not> same_file
        \<lparr>dirents = [([], DirEnt), ([''P''], DirEnt), ([''P'', ''a.txt''], FileEnt 0),
                   ([''P'', ''keep.txt''], FileEnt 0), ([''P'', ''notes.md''], FileEnt 1)],
         inodes = [(0, ''old''), (1, ''keep'')]\<rparr> p [''P'', ''notes.md''])
     (tree_paths [''P''] example_tree) \<and>
   view (snd (disk_create_files_and_dirs [''P''] example_tree
        \<lparr>dirents = [([], DirEnt), ([''P''], DirEnt), ([''P'', ''a.txt''], FileEnt 0),
                   ([''P'', ''keep.txt''], FileEnt 0), ([''P'', ''notes.md''], FileEnt 1)],
         inodes = [(0, ''old''), (1, ''keep'')]\<rparr>)) [''P'', ''notes.md''] =
     Some (File ''keep'')"
proof -
  let ?d = "\<lparr>dirents = [([], DirEnt), ([''P''], DirEnt), ([''P'', ''a.txt''], FileEnt 0),
                   ([''P'', ''keep.txt''], FileEnt 0), ([''P'', ''notes.md''], FileEnt 1)],
         inodes = [(0, ''old''), (1, ''keep'')]\<rparr>"
  have v: "valid_names example_tree" by code_simp
  have n: "[''P'', ''notes.md''] \<notin> set (tree_paths [''P''] example_tree)" by code_simp
  have l: "list_all (\<lambda>p. \<not> same_file ?d p [''P'', ''notes.md'']) (tree_paths [''P''] example_tree)"
    by code_simp
  then have a: "\<forall>p \<in> set (tree_paths [''P''] example_tree). \<not> same_file ?d p [''P'', ''notes.md'']"
    by (simp add: list_all_iff)
  have k: "view ?d [''P'', ''notes.md''] = Some (File ''keep'')" by code_simp
  from unrelated_entries_unchanged [OF v n a] k
  have "view (snd (disk_create_files_and_dirs [''P''] example_tree ?d)) [''P'', ''notes.md''] =
          Some (File ''keep'')"
    by simp
  with v n l show ?thesis by simp
qed

subsection \<open>C4\<close>




subsection \<open>C5\<close>

text \<open>
  C5. A run of the materializer is the list \<open>visit_order\<close> carried out statement by
  statement, each \<^verbatim>\<open>mkdir\<close> and each \<^verbatim>\<open>open\<close> and \<^verbatim>\<open>write\<close> performed on the filesystem when its
  turn comes, up to the first that raises: the entries of each mapping in insertion order,
  the whole subtree of a directory entry before its next sibling. The run adds to the trace
  a prefix of that list, all of it when nothing raises; and a mapping whose items are \<open>xs\<close>
  followed by \<open>ys\<close> is walked as \<open>xs\<close> to its end, subtrees included, and then \<open>ys\<close>.
\<close>

theorem traversal_order:
  "create_files_and_dirs P T w = run (visit_order P T) w \<and>
   (\<exists>evs. trace (snd (create_files_and_dirs P T w)) = trace w @ evs \<and>
          prefix evs (visit_order P T) \<and>
          (fst (create_files_and_dirs P T w) = None \<longrightarrow> evs = visit_order P T)) \<and>
   create_files_and_dirs P (xs @ ys) w =
     (case create_files_and_dirs P xs w of
        (Some e, w') \<Rightarrow> (Some e, w')
      | (None, w') \<Rightarrow> create_files_and_dirs P ys w')"
proof (intro exI conjI impI)
  show "create_files_and_dirs P T w = run (visit_order P T) w" by (rule cfd_run)
  show "trace (snd (create_files_and_dirs P T w)) =
     trace w @ take (attempted (visit_order P T) (files w)) (visit_order P T)"
    by (rule cfd_trace)
  show "prefix (take (attempted (visit_order P T) (files w)) (visit_order P T)) (visit_order P T)"
    by (rule take_is_prefix)
  show "take (attempted (visit_order P T) (files w)) (visit_order P T) = visit_order P T"
    if "fst (create_files_and_dirs P T w) = None"
    using that by (rule cfd_trace_success)
  show "create_files_and_dirs P (xs @ ys) w =
     (case create_files_and_dirs P xs w of
        (Some e, w') \<Rightarrow> (Some e, w')
      | (None, w') \<Rightarrow> create_files_and_dirs P ys w')"
    by (rule cfd_append)
qed

theorem traversal_order_witness:
  "fst (create_files_and_dirs [''P''] example_tree (world_of [([], Dir), ([''P''], Dir)])) = None \<and>
   trace (snd (create_files_and_dirs [''P''] example_tree (world_of [([], Dir), ([''P''], Dir)]))) =
     [WriteFile [''P'', ''a.txt''] ''hi'', Mkdir [''P'', ''b''],
      WriteFile [''P'', ''b'', ''c.txt''] []] \<and>
   files (snd (create_files_and_dirs [''P''] example_tree (world_of [([], Dir), ([''P''], Dir)])))
     [''P'', ''b'', ''c.txt''] = Some (File [])"
proof -
  let ?w = "world_of [([], Dir), ([''P''], Dir)]"
  have ok: "fst (create_files_and_dirs [''P''] example_tree ?w) = None"
    by code_simp
  from traversal_order [THEN conjunct2, THEN conjunct1, of "[''P'']" example_tree ?w] ok
  have "trace (snd (create_files_and_dirs [''P''] example_tree ?w)) =
          trace ?w @ visit_order [''P''] example_tree"
    by auto
  moreover have "trace ?w @ visit_order [''P''] example_tree =
     [WriteFile [''P'', ''a.txt''] ''hi'', Mkdir [''P'', ''b''],
      WriteFile [''P'', ''b'', ''c.txt''] []]"
    by code_simp
  moreover have "files (snd (create_files_and_dirs [''P''] example_tree ?w))
     [''P'', ''b'', ''c.txt''] = Some (File [])"
    by code_simp
  ultimately show ?thesis using ok by simp
qed

subsection \<open>C6\<close>




subsection \<open>C7\<close>



subsection \<open>C8\<close>

text \<open>
  C8. A run of \<^verbatim>\<open>create_structure\<close> that raises nothing prints one line, the completion
  message, which ends with the base path, and prints it last: after the base directory and
  after every statement of the walk of the tree. A run that raises prints nothing. This holds
  for admin.py and for web.py, whose messages name \<^verbatim>\<open>apps/admin\<close> and \<^verbatim>\<open>apps/web\<close>.
\<close>

theorem completion_line:
  "(fst (create_structure base_dir T w) = None \<longrightarrow>
      stdout (snd (create_structure base_dir T w)) = stdout w @ [completion_message base_dir] \<and>
      trace (snd (create_structure base_dir T w)) =
        trace w @ MkdirParents base_dir # visit_order base_dir T @
          [Print (completion_message base_dir)]) \<and>
   (fst (create_structure base_dir T w) \<noteq> None \<longrightarrow>
      stdout (snd (create_structure base_dir T w)) = stdout w) \<and>
   web_create_structure_at base_dir T w = create_structure base_dir T w \<and>
   completion_message base_dir =
     ''Directory structure created successfully at '' @ path_str base_dir \<and>
   completion_message admin_base_dir = ''Directory structure created successfully at apps/admin'' \<and>
   completion_message web_base_dir = ''Directory structure created successfully at apps/web''"
proof (intro conjI impI)
  show "completion_message admin_base_dir = ''Directory structure created successfully at apps/admin''"
    by (simp add: completion_message_def admin_base_dir_def path_str_def)
  show "completion_message web_base_dir = ''Directory structure created successfully at apps/web''"
    by (simp add: completion_message_def web_base_dir_def path_str_def)
qed (simp_all add: create_structure_success create_structure_failure web_create_structure_at_eq
       completion_message_def)

theorem completion_line_witness:
  "fst (create_structure [''apps'', ''web''] example_tree (world_of [([], Dir)])) = None \<and>
   stdout (snd (create_structure [''apps'', ''web''] example_tree (world_of [([], Dir)]))) =
     [''Directory structure created successfully at apps/web''] \<and>
   fst (create_structure [''P''] example_tree
          (world_of [([], Dir), ([''P''], Dir), ([''P'', ''b''], File ''x'')])) \<noteq> None \<and>
   stdout (snd (create_structure [''P''] example_tree
          (world_of [([], Dir), ([''P''], Dir), ([''P'', ''b''], File ''x'')]))) = []"
proof -
  let ?w = "world_of [([], Dir)]"
  let ?v = "world_of [([], Dir), ([''P''], Dir), ([''P'', ''b''], File ''x'')]"
  have a: "fst (create_structure [''apps'', ''web''] example_tree ?w) = None" by code_simp
  have b: "fst (create_structure [''P''] example_tree ?v) \<noteq> None" by code_simp
  have c: "stdout ?w @ [completion_message [''apps'', ''web'']] =
             [''Directory structure created successfully at apps/web'']"
    by code_simp
  have d: "stdout ?v = []" by code_simp
  from completion_line [THEN conjunct1, of "[''apps'', ''web'']" example_tree ?w] a c
  have 1: "stdout (snd (create_structure [''apps'', ''web''] example_tree ?w)) =
     [''Directory structure created successfully at apps/web'']"
    by simp
  from completion_line [THEN conjunct2, THEN conjunct1, of "[''P'']" example_tree ?v] b d
  have 2: "stdout (snd (create_structure [''P''] example_tree ?v)) = []" by simp
  from a b 1 2 show ?thesis by simp
qed

subsection \<open>C9\<close>

text \<open>
  C9. The two scripts hold the same materializer twice: \<^verbatim>\<open>create_files_and_dirs\<close> of web.py
  and \<^verbatim>\<open>create_files_and_dirs\<close> of admin.py return the same result and the same final state,
  trace included, for every parent path, tree and starting state; so do the two
  \<^verbatim>\<open>create_structure\<close> once base path and tree are given, and the scripts are that one
  function at their own base path and structure literal.
\<close>
theorem scripts_share_materializer:
  "web_create_files_and_dirs P T w = create_files_and_dirs P T w \<and>
   web_create_structure_at base_dir structure w = create_structure base_dir structure w \<and>
   admin_create_structure w = create_structure admin_base_dir admin_structure w \<and>
   web_create_structure w = create_structure web_base_dir web_structure w"
  by (simp add: web_cfd_eq web_create_structure_at_eq admin_create_structure_def
        web_create_structure_def)

subsection \<open>C10\<close>

text \<open>
  C10. In a run of \<^verbatim>\<open>create_structure\<close> on a tree whose names are single path components,
  every invocation of the helper, the first and every recursive one, finds its
  \<^verbatim>\<open>parent_path\<close> an existing directory; in a run that raises nothing these invocations
  are the one on the base path and one on the path of each key with a mapping. So no \<^verbatim>\<open>mkdir\<close> of the helper meets a missing parent:
  the run never raises \<^verbatim>\<open>FileNotFoundError\<close>. The names of both structure literals are single
  path components, and each mapping in them holds a key once.
\<close>

theorem helper_parent_is_directory:
  assumes "valid_names T"
  shows "(\<forall>(p, fs) \<in> set (helper_calls base_dir T w). is_dir fs p) \<and>
         (fst (create_structure base_dir T w) = None \<longrightarrow>
            map fst (helper_calls base_dir T w) = base_dir # dir_paths base_dir T) \<and>
         fst (create_structure base_dir T w) \<noteq> Some FileNotFoundError \<and>
         valid_names admin_structure \<and> valid_names web_structure"
  using structures_well_formed
  by (auto simp: is_dir_def create_structure_not_missing helper_calls_paths
           dest: helper_calls_dirs)

theorem helper_parent_is_directory_witness:
  "valid_names example_tree \<and>
   map fst (helper_calls [''apps'', ''web''] example_tree (world_of [([], Dir)])) =
     [[''apps'', ''web''], [''apps'', ''web'', ''b'']] \<and>
   list_all (\<lambda>(p, fs). is_dir fs p)
     (helper_calls [''apps'', ''web''] example_tree (world_of [([], Dir)]))"
proof -
  let ?w = "world_of [([], Dir)]"
  have v: "valid_names example_tree" by code_simp
  have m: "map fst (helper_calls [''apps'', ''web''] example_tree ?w) =
     [[''apps'', ''web''], [''apps'', ''web'', ''b'']]"
    by code_simp
  from helper_parent_is_directory [OF v, THEN conjunct1, of "[''apps'', ''web'']" ?w] v m
  show ?thesis by (simp add: list_all_iff)
qed

section \<open>The two scripts in an empty working directory\<close>

text \<open>
  Both scripts, run where nothing but the working directory exists, raise nothing and leave
  their whole structure in place under \<^verbatim>\<open>apps/admin\<close> and \<^verbatim>\<open>apps/web\<close>.
\<close>

corollary scripts_in_empty_directory:
  "fst (admin_create_structure (world_of [([], Dir)])) = None \<and>
   materialized (files (snd (admin_create_structure (world_of [([], Dir)]))))
     admin_base_dir admin_structure \<and>
   fst (web_create_structure (world_of [([], Dir)])) = None \<and>
   materialized (files (snd (web_create_structure (world_of [([], Dir)]))))
     web_base_dir web_structure"
proof -
  have a: "fst (mkdir_parents_exist_ok admin_base_dir (world_of [([], Dir)])) = None"
    by code_simp
  have b: "fst (mkdir_parents_exist_ok web_base_dir (world_of [([], Dir)])) = None"
    by code_simp
  from structures_well_formed fresh_directory_run [OF _ a] fresh_directory_run [OF _ b]
  show ?thesis
    by (simp add: admin_create_structure_def web_create_structure_def web_create_structure_at_eq)
qed

end
